theory Spec2Isabelle
  imports Complex_Main "HOL-Library.Word" "HOL-Library.Signed_Division"
begin

text \<open>
  A shallow embedding of the batch processor of \<^verbatim>\<open>fn.cpp\<close>: the signal pipeline
  (\<^verbatim>\<open>SignalProcessor\<close>: parsing, moving average, peak detection, output rows) and the
  image pipeline (\<^verbatim>\<open>ImageProcessor\<close>: file enumeration, construction, parameter sweep,
  corpus statistics). Every function of the source is a function here; undefined
  behaviour and exceptions are error values, the file system and the images are
  explicit state, and the kernels of the vision library are a parameter. The
  definitions come first, the properties of the code after them.
\<close>

section \<open>Values shared by both pipelines\<close>

text \<open>
  Every way in which a call can leave its normal path is a value of \<open>error\<close>:
  \<^item> \<open>OutOfRange\<close>: \<^verbatim>\<open>operator[]\<close> of a \<^verbatim>\<open>std::vector\<close> applied to an index that is
    not below \<^verbatim>\<open>size()\<close> (undefined behaviour in C++, in practice a crash);
  \<^item> \<open>IntOverflow\<close>: an \<^verbatim>\<open>int\<close> operation whose result is not a 32-bit value (undefined
    behaviour as well);
  \<^item> \<open>InvalidArgument\<close>, \<open>OutOfRangeValue\<close>: the two exceptions of \<^verbatim>\<open>std::stod\<close>
    (\<^verbatim>\<open>std::invalid_argument\<close>, \<^verbatim>\<open>std::out_of_range\<close>);
  \<^item> \<open>FilesystemError\<close>: \<^verbatim>\<open>std::filesystem::filesystem_error\<close>;
  \<^item> \<open>UndefinedCast\<close>: a \<^verbatim>\<open>static_cast<int>\<close> of a double whose truncated value
    is not an \<^verbatim>\<open>int\<close>.
\<close>

datatype error =
  OutOfRange | IntOverflow | InvalidArgument | OutOfRangeValue | FilesystemError | UndefinedCast

text \<open>
  A \<^verbatim>\<open>double\<close> is an IEEE 754 binary64 value: \<open>Fin v\<close> is the finite double of the real
  value \<open>v\<close>, beside the two infinities and NaN. The code produces and compares the
  special values: \<^verbatim>\<open>0.0 / 0\<close> is NaN, and every comparison with NaN is false. The sign
  of a zero is not modelled (the only divisions by zero of the program have the
  divisor \<^verbatim>\<open>+0.0\<close>).
\<close>

datatype dbl = Fin real | PInf | NInf | NaN

text \<open>
  The result of an arithmetic operation is the exact result rounded to the nearest
  double, a tie going to the double with the even significand (the rounding mode the
  program runs in, since it never changes it).

  \<open>round_half_even y\<close> is the integer nearest to \<open>y\<close>, the even one of the two when \<open>y\<close>
  lies halfway.
\<close>

definition round_half_even :: "real \<Rightarrow> int" where
  "round_half_even y =
     (let f = \<lfloor>y\<rfloor>
      in if y - of_int f < 1 / 2 then f
         else if 1 / 2 < y - of_int f then f + 1
         else if even f then f else f + 1)"

text \<open>
  The binary exponent of a magnitude \<open>a\<close>: the greatest \<open>e\<close> from \<open>- 1022\<close> to \<open>1023\<close>
  with \<open>2 ^ e \<le> a\<close>, and \<open>- 1022\<close>, the exponent of the subnormal doubles, when there is
  none. The doubles of exponent \<open>e\<close> are the multiples of \<open>2 ^ (e - 52)\<close>.
\<close>

function binade_from :: "real \<Rightarrow> int \<Rightarrow> int" where
  "binade_from a e =
     (if e \<le> - 1022 then - 1022 else if 2 powi e \<le> a then e else binade_from a (e - 1))"
  by pat_completeness auto
termination
  by (relation "measure (\<lambda>(a, e). nat (e + 1022))") auto

definition binade :: "real \<Rightarrow> int" where
  "binade a = binade_from a 1023"

text \<open>
  The double nearest to a real. From \<open>2 ^ 1024 - 2 ^ 970\<close> on, which is halfway between
  the greatest finite double and \<open>2 ^ 1024\<close>, the result is an infinity.
\<close>

definition round_double :: "real \<Rightarrow> dbl" where
  "round_double x =
     (if 2 ^ 1024 - 2 ^ 970 \<le> \<bar>x\<bar> then (if 0 < x then PInf else NInf)
      else (let q = 2 powi (binade \<bar>x\<bar> - 52)
            in Fin (of_int (round_half_even (x / q)) * q)))"

text \<open>The sum \<^verbatim>\<open>a + b\<close> of two doubles.\<close>

fun dadd :: "dbl \<Rightarrow> dbl \<Rightarrow> dbl" where
  "dadd (Fin a) (Fin b) = round_double (a + b)"
| "dadd NaN _ = NaN"
| "dadd _ NaN = NaN"
| "dadd PInf NInf = NaN"
| "dadd NInf PInf = NaN"
| "dadd PInf _ = PInf"
| "dadd _ PInf = PInf"
| "dadd NInf _ = NInf"
| "dadd _ NInf = NInf"

text \<open>The product \<^verbatim>\<open>a * b\<close> of two doubles.\<close>

fun dmul :: "dbl \<Rightarrow> dbl \<Rightarrow> dbl" where
  "dmul (Fin a) (Fin b) = round_double (a * b)"
| "dmul NaN _ = NaN"
| "dmul _ NaN = NaN"
| "dmul PInf (Fin b) = (if b = 0 then NaN else if 0 < b then PInf else NInf)"
| "dmul NInf (Fin b) = (if b = 0 then NaN else if 0 < b then NInf else PInf)"
| "dmul (Fin a) PInf = (if a = 0 then NaN else if 0 < a then PInf else NInf)"
| "dmul (Fin a) NInf = (if a = 0 then NaN else if 0 < a then NInf else PInf)"
| "dmul PInf PInf = PInf"
| "dmul NInf NInf = PInf"
| "dmul PInf NInf = NInf"
| "dmul NInf PInf = NInf"

text \<open>The quotient \<^verbatim>\<open>a / b\<close> of two doubles: a division by zero is not an error but an
  infinity or NaN.\<close>

fun ddiv :: "dbl \<Rightarrow> dbl \<Rightarrow> dbl" where
  "ddiv (Fin a) (Fin b) =
     (if b \<noteq> 0 then round_double (a / b)
      else if a = 0 then NaN else if 0 < a then PInf else NInf)"
| "ddiv NaN _ = NaN"
| "ddiv _ NaN = NaN"
| "ddiv (Fin a) PInf = Fin 0"
| "ddiv (Fin a) NInf = Fin 0"
| "ddiv PInf (Fin b) = (if b < 0 then NInf else PInf)"
| "ddiv NInf (Fin b) = (if b < 0 then PInf else NInf)"
| "ddiv PInf PInf = NaN"
| "ddiv PInf NInf = NaN"
| "ddiv NInf PInf = NaN"
| "ddiv NInf NInf = NaN"

text \<open>The conversion of an \<^verbatim>\<open>int\<close> and of a \<^verbatim>\<open>size_t\<close> to double.\<close>

definition double_of_int :: "int \<Rightarrow> dbl" where
  "double_of_int k = round_double (real_of_int k)"

definition double_of_size_t :: "nat \<Rightarrow> dbl" where
  "double_of_size_t n = round_double (real n)"

text \<open>The double that a conversion from text returns for an exact value.\<close>

fun nearest_double :: "dbl \<Rightarrow> dbl" where
  "nearest_double (Fin v) = round_double v"
| "nearest_double d = d"

text \<open>\<^verbatim>\<open>static_cast<int>(x)\<close> for a double: the value is truncated towards zero; the
  behaviour is undefined when the truncated value is not an \<^verbatim>\<open>int\<close>.\<close>

fun int_of_double :: "dbl \<Rightarrow> error + int" where
  "int_of_double (Fin x) =
     (let t = (if 0 \<le> x then \<lfloor>x\<rfloor> else \<lceil>x\<rceil>)
      in if - (2 ^ 31) \<le> t \<and> t < 2 ^ 31 then Inr t else Inl UndefinedCast)"
| "int_of_double _ = Inl UndefinedCast"

text \<open>The comparison \<^verbatim>\<open>a > b\<close> of two doubles.\<close>

fun dgt :: "dbl \<Rightarrow> dbl \<Rightarrow> bool" where
  "dgt (Fin a) (Fin b) = (b < a)"
| "dgt NaN _ = False"
| "dgt _ NaN = False"
| "dgt PInf PInf = False"
| "dgt PInf _ = True"
| "dgt NInf _ = False"
| "dgt (Fin a) NInf = True"
| "dgt (Fin a) PInf = False"

text \<open>\<^verbatim>\<open>v[i]\<close> for a vector and an index of type \<^verbatim>\<open>size_t\<close>.\<close>

definition vec_at :: "'a list \<Rightarrow> nat \<Rightarrow> error + 'a" where
  "vec_at v i = (if i < length v then Inr (v ! i) else Inl OutOfRange)"

text \<open>The conversion of an \<^verbatim>\<open>int\<close> to the 64-bit \<^verbatim>\<open>size_t\<close> (as in \<^verbatim>\<open>signal[j]\<close>
  with \<^verbatim>\<open>int j\<close>): a negative value wraps around.\<close>

definition size_t_of_int :: "int \<Rightarrow> nat" where
  "size_t_of_int j = nat (j mod 2 ^ 64)"

text \<open>\<^verbatim>\<open>signal.size() - 1\<close>, computed in \<^verbatim>\<open>size_t\<close>: for the empty vector it is
  \<open>2 ^ 64 - 1\<close>.\<close>

definition size_minus_1 :: "'a list \<Rightarrow> nat" where
  "size_minus_1 v = unat ((word_of_nat (length v) :: 64 word) - 1)"

text \<open>An \<^verbatim>\<open>int\<close> is a 32-bit signed value, modelled by the integer it denotes. The
  result of an arithmetic operation must be one again; \<^verbatim>\<open>static_cast<int>\<close> of a
  \<^verbatim>\<open>size_t\<close> keeps the low 32 bits.\<close>

definition int_result :: "int \<Rightarrow> error + int" where
  "int_result x = (if - (2 ^ 31) \<le> x \<and> x < 2 ^ 31 then Inr x else Inl IntOverflow)"

definition int_of_size_t :: "nat \<Rightarrow> int" where
  "int_of_size_t n = sint (word_of_nat n :: 32 word)"


section \<open>Signal pipeline: \<^verbatim>\<open>SignalProcessor\<close>\<close>

subsection \<open>\<^verbatim>\<open>movingAverage\<close>\<close>

text \<open>
  The inner loop \<^verbatim>\<open>for (int j = start; j <= end; ++j)\<close> accumulates \<^verbatim>\<open>sum\<close> (here
  \<open>acc\<close>) and \<^verbatim>\<open>count\<close>; \<open>w_start\<close> and \<open>w_end\<close> are the source's \<^verbatim>\<open>start\<close> and
  \<^verbatim>\<open>end\<close>. The body reads \<^verbatim>\<open>signal[j]\<close>, then increments \<^verbatim>\<open>count\<close>, then \<^verbatim>\<open>j\<close>.
\<close>

function movingAverage_window ::
  "dbl list \<Rightarrow> int \<Rightarrow> int \<Rightarrow> dbl \<Rightarrow> int \<Rightarrow> error + (dbl \<times> int)" where
  "movingAverage_window signal w_end j acc count =
     (if j \<le> w_end then
        (case vec_at signal (size_t_of_int j) of
           Inl e \<Rightarrow> Inl e
         | Inr x \<Rightarrow>
            (case int_result (count + 1) of
               Inl e \<Rightarrow> Inl e
             | Inr count' \<Rightarrow>
                (case int_result (j + 1) of
                   Inl e \<Rightarrow> Inl e
                 | Inr j' \<Rightarrow> movingAverage_window signal w_end j' (dadd acc x) count')))
      else Inr (acc, count))"
  by pat_completeness auto
termination
  by (relation "measure (\<lambda>(signal, w_end, j, acc, count). nat (w_end + 1 - j))")
    (auto simp: int_result_def split: if_splits)

text \<open>The window boundaries of sample \<open>i\<close>, as the body of the outer loop computes
  them; \<open>sdiv\<close> is the division of C++, which truncates towards zero.\<close>

definition movingAverage_bounds :: "int \<Rightarrow> dbl list \<Rightarrow> nat \<Rightarrow> error + (int \<times> int)" where
  "movingAverage_bounds window_size signal i =
     (case int_result (int_of_size_t i - window_size sdiv 2) of
        Inl e \<Rightarrow> Inl e
      | Inr lo \<Rightarrow>
         (case int_result (int_of_size_t i + window_size sdiv 2) of
            Inl e \<Rightarrow> Inl e
          | Inr hi \<Rightarrow> Inr (max 0 lo, min (int_of_size_t (size_minus_1 signal)) hi)))"

text \<open>The outer loop \<^verbatim>\<open>for (size_t i = 0; i < signal.size(); ++i)\<close>, which stores
  \<^verbatim>\<open>sum / count\<close> into \<^verbatim>\<open>result[i]\<close>.\<close>

function movingAverage_loop ::
  "int \<Rightarrow> dbl list \<Rightarrow> nat \<Rightarrow> dbl list \<Rightarrow> error + dbl list" where
  "movingAverage_loop window_size signal i result =
     (if i < length signal then
        (case movingAverage_bounds window_size signal i of
           Inl e \<Rightarrow> Inl e
         | Inr (w_start, w_end) \<Rightarrow>
            (case movingAverage_window signal w_end w_start (Fin 0) 0 of
               Inl e \<Rightarrow> Inl e
             | Inr (acc, count) \<Rightarrow>
                 movingAverage_loop window_size signal (i + 1)
                   (result[i := ddiv acc (double_of_int count)])))
      else Inr result)"
  by pat_completeness auto
termination
  by (relation "measure (\<lambda>(window_size, signal, i, result). length signal - i)") auto

text \<open>\<^verbatim>\<open>std::vector<double> result(signal.size())\<close> starts as zeros.\<close>

definition movingAverage :: "int \<Rightarrow> dbl list \<Rightarrow> error + dbl list" where
  "movingAverage window_size signal =
     movingAverage_loop window_size signal 0 (replicate (length signal) (Fin 0))"

subsection \<open>\<^verbatim>\<open>findPeaks\<close>\<close>

text \<open>
  The condition of the \<^verbatim>\<open>if\<close>: \<^verbatim>\<open>&&\<close> evaluates its right operand only when the left
  one is true, so \<^verbatim>\<open>signal[i + 1]\<close> is read only after \<^verbatim>\<open>signal[i] > signal[i - 1]\<close>.
\<close>

definition findPeaks_cond :: "dbl \<Rightarrow> dbl list \<Rightarrow> nat \<Rightarrow> error + bool" where
  "findPeaks_cond threshold signal i =
     (case vec_at signal i of
        Inl e \<Rightarrow> Inl e
      | Inr a \<Rightarrow>
         (case vec_at signal (i - 1) of
            Inl e \<Rightarrow> Inl e
          | Inr b \<Rightarrow>
             (if \<not> dgt a b then Inr False
              else (case vec_at signal (i + 1) of
                      Inl e \<Rightarrow> Inl e
                    | Inr c \<Rightarrow> (if \<not> dgt a c then Inr False else Inr (dgt a threshold))))))"

text \<open>The loop \<^verbatim>\<open>for (size_t i = 1; i < signal.size() - 1; ++i)\<close>; the bound is computed
  in \<^verbatim>\<open>size_t\<close>.\<close>

function findPeaks_loop :: "dbl \<Rightarrow> dbl list \<Rightarrow> nat \<Rightarrow> nat list \<Rightarrow> error + nat list" where
  "findPeaks_loop threshold signal i peaks =
     (if i < size_minus_1 signal then
        (case findPeaks_cond threshold signal i of
           Inl e \<Rightarrow> Inl e
         | Inr b \<Rightarrow> findPeaks_loop threshold signal (i + 1) (if b then peaks @ [i] else peaks))
      else Inr peaks)"
  by pat_completeness auto
termination
  by (relation "measure (\<lambda>(threshold, signal, i, peaks). size_minus_1 signal - i)") auto

definition findPeaks :: "dbl \<Rightarrow> dbl list \<Rightarrow> error + nat list" where
  "findPeaks threshold signal = findPeaks_loop threshold signal 1 []"

subsection \<open>\<^verbatim>\<open>std::stod\<close>\<close>

text \<open>
  \<^verbatim>\<open>std::stod(line)\<close> calls \<^verbatim>\<open>strtod\<close> of the C library (in the "C" locale, which the
  program never changes): white space is skipped, then the longest prefix that is an
  optionally signed decimal number, hexadecimal number, \<^verbatim>\<open>inf\<close>/\<^verbatim>\<open>infinity\<close> or
  \<^verbatim>\<open>nan\<close>/\<^verbatim>\<open>nan(...)\<close> is converted; what follows it is ignored, because \<^verbatim>\<open>stod\<close> is called
  without a position argument.
\<close>

definition isspace :: "char \<Rightarrow> bool" where
  "isspace c = (c \<in> set [CHR '' '', CHR 0x09, CHR 0x0A, CHR 0x0B, CHR 0x0C, CHR 0x0D])"

definition digit_value :: "char \<Rightarrow> nat option" where
  "digit_value = map_of
     [(CHR ''0'', 0), (CHR ''1'', 1), (CHR ''2'', 2), (CHR ''3'', 3), (CHR ''4'', 4),
      (CHR ''5'', 5), (CHR ''6'', 6), (CHR ''7'', 7), (CHR ''8'', 8), (CHR ''9'', 9)]"

definition hex_value :: "char \<Rightarrow> nat option" where
  "hex_value c =
     (case digit_value c of
        Some d \<Rightarrow> Some d
      | None \<Rightarrow> map_of
         [(CHR ''a'', 10), (CHR ''b'', 11), (CHR ''c'', 12), (CHR ''d'', 13), (CHR ''e'', 14),
          (CHR ''f'', 15), (CHR ''A'', 10), (CHR ''B'', 11), (CHR ''C'', 12), (CHR ''D'', 13),
          (CHR ''E'', 14), (CHR ''F'', 15)] c)"

definition tolower :: "char \<Rightarrow> char" where
  "tolower c =
     (case map_of (zip ''ABCDEFGHIJKLMNOPQRSTUVWXYZ'' ''abcdefghijklmnopqrstuvwxyz'') c of
        Some l \<Rightarrow> l
      | None \<Rightarrow> c)"

text \<open>The longest run of digits at the front of a string, with the rest.\<close>

fun scan_digits :: "(char \<Rightarrow> nat option) \<Rightarrow> string \<Rightarrow> nat list \<times> string" where
  "scan_digits val [] = ([], [])"
| "scan_digits val (c # cs) =
     (case val c of
        None \<Rightarrow> ([], c # cs)
      | Some d \<Rightarrow> (case scan_digits val cs of (ds, rest) \<Rightarrow> (d # ds, rest)))"

definition number_of :: "nat \<Rightarrow> nat list \<Rightarrow> nat" where
  "number_of base ds = foldl (\<lambda>a d. a * base + d) 0 ds"

fun scan_sign :: "string \<Rightarrow> bool \<times> string" where
  "scan_sign [] = (False, [])"
| "scan_sign (c # cs) =
     (if c = CHR ''-'' then (True, cs) else if c = CHR ''+'' then (False, cs) else (False, c # cs))"

text \<open>Digits with an optional radix character; at least one digit is required.\<close>

definition scan_mantissa ::
  "nat \<Rightarrow> (char \<Rightarrow> nat option) \<Rightarrow> string \<Rightarrow> (real \<times> string) option" where
  "scan_mantissa base val s =
     (case scan_digits val s of (ip, r1) \<Rightarrow>
       (case (case r1 of
                [] \<Rightarrow> ([], r1)
              | c # cs \<Rightarrow> if c = CHR ''.'' then scan_digits val cs else ([], r1)) of
          (fp, r2) \<Rightarrow>
            if ip = [] \<and> fp = [] then None
            else Some (real (number_of base ip) + real (number_of base fp) / real (base ^ length fp),
                       r2)))"

text \<open>An exponent part: a marker character, an optional sign, at least one decimal
  digit. Without a digit there is no exponent part and nothing of it is consumed.\<close>

definition scan_exponent :: "string \<Rightarrow> string \<Rightarrow> (int \<times> string) option" where
  "scan_exponent markers s =
     (case s of
        [] \<Rightarrow> None
      | c # cs \<Rightarrow>
          if c \<in> set markers then
            (case scan_sign cs of (neg, r) \<Rightarrow>
              (case scan_digits digit_value r of (ds, rest) \<Rightarrow>
                 if ds = [] then None
                 else Some ((if neg then - 1 else 1) * int (number_of 10 ds), rest)))
          else None)"

definition scale :: "real \<Rightarrow> int \<Rightarrow> real \<Rightarrow> real" where
  "scale b e m = (if 0 \<le> e then m * b ^ nat e else m / b ^ nat (- e))"

definition scan_decimal :: "string \<Rightarrow> (real \<times> string) option" where
  "scan_decimal s =
     (case scan_mantissa 10 digit_value s of
        None \<Rightarrow> None
      | Some (m, r) \<Rightarrow>
         (case scan_exponent ''eE'' r of
            None \<Rightarrow> Some (m, r)
          | Some (e, r') \<Rightarrow> Some (scale 10 e m, r')))"

definition scan_hex :: "string \<Rightarrow> (real \<times> string) option" where
  "scan_hex s =
     (case s of
        c0 # cx # cs \<Rightarrow>
          if c0 = CHR ''0'' \<and> cx \<in> set ''xX'' then
            (case scan_mantissa 16 hex_value cs of
               None \<Rightarrow> None
             | Some (m, r) \<Rightarrow>
                (case scan_exponent ''pP'' r of
                   None \<Rightarrow> Some (m, r)
                 | Some (e, r') \<Rightarrow> Some (scale 2 e m, r')))
          else None
      | _ \<Rightarrow> None)"

text \<open>\<open>scan_word w s\<close>: \<open>s\<close> starts with the lower-case word \<open>w\<close>, ignoring case.\<close>

definition scan_word :: "string \<Rightarrow> string \<Rightarrow> string option" where
  "scan_word w s =
     (if map tolower (take (length w) s) = w then Some (drop (length w) s) else None)"

definition scan_infinity :: "string \<Rightarrow> string option" where
  "scan_infinity s =
     (case scan_word ''infinity'' s of
        Some rest \<Rightarrow> Some rest
      | None \<Rightarrow> scan_word ''inf'' s)"

text \<open>\<^verbatim>\<open>nan\<close>, optionally followed by a parenthesised sequence of letters, digits and
  underscores.\<close>

definition is_nchar :: "char \<Rightarrow> bool" where
  "is_nchar c = (tolower c \<in> set ''abcdefghijklmnopqrstuvwxyz0123456789_'')"

definition scan_nan :: "string \<Rightarrow> string option" where
  "scan_nan s =
     (case scan_word ''nan'' s of
        None \<Rightarrow> None
      | Some r \<Rightarrow>
         (case r of
            [] \<Rightarrow> Some r
          | c # cs \<Rightarrow>
              if c = CHR ''('' then
                (case dropWhile is_nchar cs of
                   [] \<Rightarrow> Some r
                 | c' # rest \<Rightarrow> if c' = CHR '')'' then Some rest else Some r)
              else Some r))"

text \<open>\<^verbatim>\<open>strtod\<close>: the converted value (exact, before any rounding or range check) and
  the unconverted rest, or \<open>None\<close> when no conversion can be performed.\<close>

definition strtod :: "string \<Rightarrow> (dbl \<times> string) option" where
  "strtod s =
     (case scan_sign (dropWhile isspace s) of (neg, r) \<Rightarrow>
       (case scan_hex r of
          Some (v, rest) \<Rightarrow> Some (Fin (if neg then - v else v), rest)
        | None \<Rightarrow>
           (case scan_decimal r of
              Some (v, rest) \<Rightarrow> Some (Fin (if neg then - v else v), rest)
            | None \<Rightarrow>
               (case scan_infinity r of
                  Some rest \<Rightarrow> Some (if neg then NInf else PInf, rest)
                | None \<Rightarrow>
                   (case scan_nan r of
                      Some rest \<Rightarrow> Some (NaN, rest)
                    | None \<Rightarrow> None)))))"

text \<open>
  \<^verbatim>\<open>strtod\<close> reports \<^verbatim>\<open>ERANGE\<close> when the value overflows: its magnitude is at least
  \<open>2 ^ 1024 - 2 ^ 970\<close>, which rounds to an infinity. For a non-zero value below the
  smallest normal double \<open>2 ^ - 1022\<close> the C standard leaves it to the implementation
  whether \<^verbatim>\<open>ERANGE\<close> is reported; the model takes that decision as the parameter
  \<open>tiny_erange\<close>.
\<close>

definition erange :: "(real \<Rightarrow> bool) \<Rightarrow> dbl \<Rightarrow> bool" where
  "erange tiny_erange d =
     (case d of
        Fin v \<Rightarrow> 2 ^ 1024 - 2 ^ 970 \<le> \<bar>v\<bar> \<or> (v \<noteq> 0 \<and> \<bar>v\<bar> < 1 / 2 ^ 1022 \<and> tiny_erange v)
      | _ \<Rightarrow> False)"

text \<open>\<^verbatim>\<open>std::stod\<close> throws \<^verbatim>\<open>std::invalid_argument\<close> when no conversion is performed
  and \<^verbatim>\<open>std::out_of_range\<close> when \<^verbatim>\<open>strtod\<close> reports \<^verbatim>\<open>ERANGE\<close>; otherwise it returns the
  double nearest to the converted value.\<close>

definition stod :: "(real \<Rightarrow> bool) \<Rightarrow> string \<Rightarrow> error + dbl" where
  "stod tiny_erange str =
     (case strtod str of
        None \<Rightarrow> Inl InvalidArgument
      | Some (d, rest) \<Rightarrow>
          if erange tiny_erange d then Inl OutOfRangeValue else Inr (nearest_double d))"

subsection \<open>\<^verbatim>\<open>processSignal\<close>\<close>

record signal_processor =
  signal_files :: "string list"
  signal_output_dir :: string
  signal_verbose :: bool
  window_size :: int
  threshold :: dbl

text \<open>
  The input stream is modelled by the list of its lines: \<^verbatim>\<open>std::getline\<close> takes the next
  one and fails at the end. The loop \<^verbatim>\<open>while (std::getline(file, line))\<close> appends the
  value of every line that \<^verbatim>\<open>std::stod\<close> converts; \<^verbatim>\<open>catch (...)\<close> catches both of its
  exceptions and goes on with the next line.
\<close>

fun read_signal :: "(real \<Rightarrow> bool) \<Rightarrow> string list \<Rightarrow> dbl list \<Rightarrow> dbl list" where
  "read_signal tiny_erange [] signal = signal"
| "read_signal tiny_erange (line # lines) signal =
     (case stod tiny_erange line of
        Inl e \<Rightarrow> read_signal tiny_erange lines signal
      | Inr v \<Rightarrow> read_signal tiny_erange lines (signal @ [v]))"

text \<open>\<^verbatim>\<open>fs::path(file_path).filename()\<close>: what follows the last \<^verbatim>\<open>/\<close>.\<close>

definition filename :: "string \<Rightarrow> string" where
  "filename p = rev (takeWhile (\<lambda>c. c \<noteq> CHR ''/'') (rev p))"

text \<open>
  The loop that writes one row per sample. \<open>fmt\<close> is the text that \<^verbatim>\<open>operator<<\<close> prints
  for a double (not modelled); the output file is modelled by the list of its lines.
\<close>

function write_rows ::
  "(dbl \<Rightarrow> string) \<Rightarrow> dbl list \<Rightarrow> dbl list \<Rightarrow> nat list \<Rightarrow> nat \<Rightarrow> string list \<Rightarrow>
   error + string list" where
  "write_rows fmt signal filtered_signal peaks i outfile =
     (if i < length signal then
        (case vec_at signal i of
           Inl e \<Rightarrow> Inl e
         | Inr a \<Rightarrow>
            (case vec_at filtered_signal i of
               Inl e \<Rightarrow> Inl e
             | Inr b \<Rightarrow>
                 write_rows fmt signal filtered_signal peaks (i + 1)
                   (outfile @
                    [fmt a @ '','' @ fmt b @ '','' @ (if i \<in> set peaks then ''1'' else ''0'')])))
      else Inr outfile)"
  by pat_completeness auto
termination
  by (relation "measure (\<lambda>(fmt, signal, filtered_signal, peaks, i, outfile). length signal - i)")
    auto

datatype signal_outcome = CouldNotOpen | CouldNotCreate | Written string "string list"

text \<open>
  \<open>input\<close> is what opening and reading \<open>file_path\<close> gives (\<open>None\<close>: the file cannot be
  opened) and \<open>creatable\<close> tells whether the output file can be opened for writing. The
  first line is discarded whatever it is. An \<open>Inl\<close> result is undefined behaviour of
  the C++ program.
\<close>

definition processSignal ::
  "(real \<Rightarrow> bool) \<Rightarrow> (dbl \<Rightarrow> string) \<Rightarrow> signal_processor \<Rightarrow> string \<Rightarrow> string list option \<Rightarrow> bool \<Rightarrow>
   error + signal_outcome" where
  "processSignal tiny_erange fmt sp file_path input creatable =
     (case input of
        None \<Rightarrow> Inr CouldNotOpen
      | Some lines \<Rightarrow>
         (let signal = read_signal tiny_erange (drop 1 lines) [] in
          case movingAverage (window_size sp) signal of
            Inl e \<Rightarrow> Inl e
          | Inr filtered_signal \<Rightarrow>
             (case findPeaks (threshold sp) filtered_signal of
                Inl e \<Rightarrow> Inl e
              | Inr peaks \<Rightarrow>
                 (let output_path = signal_output_dir sp @ ''/processed_'' @ filename file_path in
                  if \<not> creatable then Inr CouldNotCreate
                  else (case write_rows fmt signal filtered_signal peaks 0
                               [''original,filtered,is_peak''] of
                          Inl e \<Rightarrow> Inl e
                        | Inr outfile \<Rightarrow> Inr (Written output_path outfile))))))"


section \<open>The file system\<close>

text \<open>
  A file or a directory is identified by its location: the names on the way to it from
  the root directory, which always exists and has the location \<open>[]\<close>. The file system
  is the working directory of the process and the list of the other entries, in the
  order in which a directory iterator meets them. Symbolic links are not modelled.
\<close>

datatype file_type = Regular | Directory | Other

type_synonym location = "string list"

record filesystem =
  cwd :: location
  entries :: "(location \<times> file_type) list"

definition status_at :: "filesystem \<Rightarrow> location \<Rightarrow> file_type option" where
  "status_at fs loc = (if loc = [] then Some Directory else map_of (entries fs) loc)"

text \<open>The components of a path: the pieces between its \<^verbatim>\<open>/\<close>. A doubled or trailing
  \<^verbatim>\<open>/\<close> gives an empty component.\<close>

fun components_from :: "string \<Rightarrow> string \<Rightarrow> string list" where
  "components_from name [] = [name]"
| "components_from name (c # cs) =
     (if c = CHR ''/'' then name # components_from [] cs else components_from (name @ [c]) cs)"

definition components :: "string \<Rightarrow> string list" where
  "components p = components_from [] p"

text \<open>
  The resolution of a path follows its components from a directory: an empty
  component and \<^verbatim>\<open>.\<close> stay where they are, \<^verbatim>\<open>..\<close> goes to the parent (the root is its own
  parent), any other name goes to the entry of that name. Every component is looked up
  in a directory, so the resolution fails when the location reached before it is not
  an existing directory; the location of the last component need not exist.
\<close>

fun walk :: "filesystem \<Rightarrow> location \<Rightarrow> string list \<Rightarrow> location option" where
  "walk fs cur [] = Some cur"
| "walk fs cur (c # cs) =
     (if status_at fs cur = Some Directory then
        (if c = [] then walk fs cur cs
         else if c = ''.'' then walk fs cur cs
         else if c = ''..'' then walk fs (butlast cur) cs
         else walk fs (cur @ [c]) cs)
      else None)"

text \<open>A path that starts with \<^verbatim>\<open>/\<close> is resolved from the root, any other path from the
  working directory; the empty path denotes nothing.\<close>

definition start_of :: "filesystem \<Rightarrow> string \<Rightarrow> location" where
  "start_of fs p = (if take 1 p = ''/'' then [] else cwd fs)"

definition resolve :: "filesystem \<Rightarrow> string \<Rightarrow> location option" where
  "resolve fs p = (if p = [] then None else walk fs (start_of fs p) (components p))"

text \<open>\<^verbatim>\<open>fs::status\<close> and \<^verbatim>\<open>fs::exists\<close>.\<close>

definition status :: "filesystem \<Rightarrow> string \<Rightarrow> file_type option" where
  "status fs p = (case resolve fs p of None \<Rightarrow> None | Some loc \<Rightarrow> status_at fs loc)"

definition exists_path :: "filesystem \<Rightarrow> string \<Rightarrow> bool" where
  "exists_path fs p = (status fs p \<noteq> None)"

text \<open>
  \<^verbatim>\<open>fs::create_directories\<close> follows the components in the same way and creates every
  directory that is missing on the way; it throws when a component exists and is not
  a directory, and for the empty path.
\<close>

fun make_directories :: "filesystem \<Rightarrow> location \<Rightarrow> string list \<Rightarrow> error + filesystem" where
  "make_directories fs cur [] = Inr fs"
| "make_directories fs cur (c # cs) =
     (if status_at fs cur = Some Directory then
        (if c = [] then make_directories fs cur cs
         else if c = ''.'' then make_directories fs cur cs
         else if c = ''..'' then make_directories fs (butlast cur) cs
         else (case status_at fs (cur @ [c]) of
                 None \<Rightarrow>
                   make_directories (fs\<lparr>entries := entries fs @ [(cur @ [c], Directory)]\<rparr>)
                     (cur @ [c]) cs
               | Some Directory \<Rightarrow> make_directories fs (cur @ [c]) cs
               | Some _ \<Rightarrow> Inl FilesystemError))
      else Inl FilesystemError)"

definition create_directories :: "string \<Rightarrow> filesystem \<Rightarrow> error + filesystem" where
  "create_directories p fs =
     (if p = [] then Inl FilesystemError
      else make_directories fs (start_of fs p) (components p))"

text \<open>The statement \<^verbatim>\<open>if (!fs::exists(dir)) fs::create_directories(dir);\<close>.\<close>

definition ensure_directory :: "string \<Rightarrow> filesystem \<Rightarrow> error + filesystem" where
  "ensure_directory dir fs = (if \<not> exists_path fs dir then create_directories dir fs else Inr fs)"

text \<open>\<open>is_below dir loc\<close>: the location \<open>loc\<close> lies below the directory at \<open>dir\<close>.\<close>

definition is_below :: "location \<Rightarrow> location \<Rightarrow> bool" where
  "is_below dir loc = (take (length dir) loc = dir \<and> length dir < length loc)"

text \<open>The path of a directory entry: \<^verbatim>\<open>operator/\<close> appends the names below the path
  that the iterator was given, with a \<^verbatim>\<open>/\<close> where none ends the path.\<close>

definition path_append :: "string \<Rightarrow> string \<Rightarrow> string" where
  "path_append p name = (if p \<noteq> [] \<and> last p = CHR ''/'' then p @ name else p @ ''/'' @ name)"

definition entry_path :: "string \<Rightarrow> location \<Rightarrow> location \<Rightarrow> string" where
  "entry_path dir dir_loc loc = foldl path_append dir (drop (length dir_loc) loc)"

text \<open>\<^verbatim>\<open>fs::recursive_directory_iterator(dir)\<close>: every entry below \<open>dir\<close>, with its path and
  its type; the constructor throws when \<open>dir\<close> is not an existing directory.\<close>

definition recursive_directory_iterator ::
  "filesystem \<Rightarrow> string \<Rightarrow> error + (string \<times> file_type) list" where
  "recursive_directory_iterator fs dir =
     (case resolve fs dir of
        None \<Rightarrow> Inl FilesystemError
      | Some dir_loc \<Rightarrow>
          if status_at fs dir_loc = Some Directory then
            Inr (map (\<lambda>(loc, t). (entry_path dir dir_loc loc, t))
                   (filter (\<lambda>(loc, t). is_below dir_loc loc) (entries fs)))
          else Inl FilesystemError)"

text \<open>\<^verbatim>\<open>path::extension()\<close>: from the last \<^verbatim>\<open>.\<close> of the file name on, unless the file name
  is \<^verbatim>\<open>.\<close> or \<^verbatim>\<open>..\<close>, has no \<^verbatim>\<open>.\<close>, or has its only \<^verbatim>\<open>.\<close> in front.\<close>

definition extension :: "string \<Rightarrow> string" where
  "extension p =
     (let f = filename p;
          after_dot = rev (takeWhile (\<lambda>c. c \<noteq> CHR ''.'') (rev f))
      in if f = ''.'' then []
         else if f = ''..'' then []
         else if CHR ''.'' \<in> set f then
           (if length after_dot + 1 = length f then [] else CHR ''.'' # after_dot)
         else [])"


section \<open>File enumeration and construction\<close>

record image_processor =
  image_paths :: "string list"
  output_dir :: string
  verbose :: bool
  blur_size :: int
  contrast_alpha :: dbl
  contrast_beta :: int
  apply_edge_detection :: bool

definition extensions :: "string list" where
  "extensions = [''.jpg'', ''.jpeg'', ''.png'', ''.bmp'', ''.tif'', ''.tiff'']"

text \<open>The loop of \<^verbatim>\<open>loadImagePaths\<close> over the entries (\<open>paths\<close> is the member
  \<^verbatim>\<open>image_paths\<close>): the extension is converted to lower case before it is looked up.\<close>

fun loadImagePaths_loop :: "(string \<times> file_type) list \<Rightarrow> string list \<Rightarrow> string list" where
  "loadImagePaths_loop [] paths = paths"
| "loadImagePaths_loop ((path, t) # rest) paths =
     (if t = Regular then
        (let ext = map tolower (extension path)
         in if ext \<in> set extensions then loadImagePaths_loop rest (paths @ [path])
            else loadImagePaths_loop rest paths)
      else loadImagePaths_loop rest paths)"

definition loadImagePaths :: "filesystem \<Rightarrow> string \<Rightarrow> error + string list" where
  "loadImagePaths fs input_dir =
     (case recursive_directory_iterator fs input_dir of
        Inl e \<Rightarrow> Inl e
      | Inr found \<Rightarrow> Inr (loadImagePaths_loop found []))"

text \<open>The loop of \<^verbatim>\<open>loadSignalFiles\<close> (\<open>files\<close> is the member \<^verbatim>\<open>signal_files\<close>): the
  extension is compared with \<^verbatim>\<open>".csv"\<close> as it is.\<close>

fun loadSignalFiles_loop :: "(string \<times> file_type) list \<Rightarrow> string list \<Rightarrow> string list" where
  "loadSignalFiles_loop [] files = files"
| "loadSignalFiles_loop ((path, t) # rest) files =
     (if t = Regular \<and> extension path = ''.csv''
      then loadSignalFiles_loop rest (files @ [path])
      else loadSignalFiles_loop rest files)"

definition loadSignalFiles :: "filesystem \<Rightarrow> string \<Rightarrow> error + string list" where
  "loadSignalFiles fs input_dir =
     (case recursive_directory_iterator fs input_dir of
        Inl e \<Rightarrow> Inl e
      | Inr found \<Rightarrow> Inr (loadSignalFiles_loop found []))"

text \<open>
  The constructors. The result is the exception that ended the construction, or the
  file system that the constructor leaves behind with the constructed object.
\<close>

definition ImageProcessor ::
  "filesystem \<Rightarrow> string \<Rightarrow> string \<Rightarrow> bool \<Rightarrow> error + (filesystem \<times> image_processor)" where
  "ImageProcessor fs input_dir output_dir' verbose' =
     (case ensure_directory output_dir' fs of
        Inl e \<Rightarrow> Inl e
      | Inr fs' \<Rightarrow>
         (case loadImagePaths fs' input_dir of
            Inl e \<Rightarrow> Inl e
          | Inr paths \<Rightarrow>
              Inr (fs', \<lparr>image_paths = paths, output_dir = output_dir', verbose = verbose',
                         blur_size = 5, contrast_alpha = Fin (3 / 2), contrast_beta = 10,
                         apply_edge_detection = True\<rparr>)))"

definition SignalProcessor ::
  "filesystem \<Rightarrow> string \<Rightarrow> string \<Rightarrow> bool \<Rightarrow> error + (filesystem \<times> signal_processor)" where
  "SignalProcessor fs input_dir output_dir' verbose' =
     (case ensure_directory output_dir' fs of
        Inl e \<Rightarrow> Inl e
      | Inr fs' \<Rightarrow>
         (case loadSignalFiles fs' input_dir of
            Inl e \<Rightarrow> Inl e
          | Inr files \<Rightarrow>
              Inr (fs', \<lparr>signal_files = files, signal_output_dir = output_dir',
                         signal_verbose = verbose', window_size = 10,
                         threshold = Fin (1 / 2)\<rparr>)))"

section \<open>Image pipeline: \<^verbatim>\<open>ImageProcessor\<close>\<close>

text \<open>
  What the image pipeline reads and writes: the file system, the image held by every
  file that \<^verbatim>\<open>cv::imread\<close> can decode (the latest content of a location first) and the
  calls of \<^verbatim>\<open>cv::imwrite\<close> so far, the latest first, each with the path and the image it
  was given.
\<close>

record 'img world =
  dirs :: filesystem
  images :: "(location \<times> 'img) list"
  written :: "(string \<times> 'img) list"

text \<open>\<^verbatim>\<open>cv::imread\<close> gives the image of a regular file that decodes, and an empty image
  (here \<open>None\<close>) otherwise.\<close>

definition imread :: "'img world \<Rightarrow> string \<Rightarrow> 'img option" where
  "imread w path =
     (case resolve (dirs w) path of
        None \<Rightarrow> None
      | Some loc \<Rightarrow> if status_at (dirs w) loc = Some Regular then map_of (images w) loc else None)"

text \<open>\<^verbatim>\<open>cv::imwrite\<close> creates the file or replaces its content; nothing is stored when
  the path cannot be resolved or denotes something that is not a regular file. The
  program ignores its result.\<close>

definition imwrite :: "'img world \<Rightarrow> string \<Rightarrow> 'img \<Rightarrow> 'img world" where
  "imwrite w path img =
     (let w1 = w\<lparr>written := (path, img) # written w\<rparr>
      in case resolve (dirs w) path of
           None \<Rightarrow> w1
         | Some loc \<Rightarrow>
            (case status_at (dirs w) loc of
               None \<Rightarrow>
                 w1\<lparr>dirs := (dirs w)\<lparr>entries := entries (dirs w) @ [(loc, Regular)]\<rparr>,
                    images := (loc, img) # images w\<rparr>
             | Some Regular \<Rightarrow> w1\<lparr>images := (loc, img) # images w\<rparr>
             | Some _ \<Rightarrow> w1))"

definition setProcessingParameters ::
  "image_processor \<Rightarrow> int \<Rightarrow> dbl \<Rightarrow> int \<Rightarrow> bool \<Rightarrow> image_processor" where
  "setProcessingParameters p blur_size' contrast_alpha' contrast_beta' apply_edge_detection' =
     p\<lparr>blur_size := blur_size', contrast_alpha := contrast_alpha',
       contrast_beta := contrast_beta', apply_edge_detection := apply_edge_detection'\<rparr>"

text \<open>
  \<open>cv\<close> stands for the calls into the vision library after \<^verbatim>\<open>imread\<close> (blur, contrast,
  edge overlay and the encoding of the result) with the four parameters; any of them
  may throw. \<open>imwrite\<close> then stores the file. An image that cannot be read is reported
  and skipped.
\<close>

definition processImage ::
  "(int \<Rightarrow> dbl \<Rightarrow> int \<Rightarrow> bool \<Rightarrow> 'img \<Rightarrow> error + 'img) \<Rightarrow> image_processor \<Rightarrow> 'img world \<Rightarrow> string \<Rightarrow>
   error + 'img world" where
  "processImage cv p w image_path =
     (case imread w image_path of
        None \<Rightarrow> Inr w
      | Some image' \<Rightarrow>
         (case cv (blur_size p) (contrast_alpha p) (contrast_beta p) (apply_edge_detection p)
                 image' of
            Inl e \<Rightarrow> Inl e
          | Inr processed \<Rightarrow>
              Inr (imwrite w (output_dir p @ ''/'' @ filename image_path) processed)))"

fun processAllImages_loop ::
  "(int \<Rightarrow> dbl \<Rightarrow> int \<Rightarrow> bool \<Rightarrow> 'img \<Rightarrow> error + 'img) \<Rightarrow> image_processor \<Rightarrow> 'img world \<Rightarrow>
   string list \<Rightarrow> error + 'img world" where
  "processAllImages_loop cv p w [] = Inr w"
| "processAllImages_loop cv p w (path # paths) =
     (case processImage cv p w path of
        Inl e \<Rightarrow> Inl e
      | Inr w' \<Rightarrow> processAllImages_loop cv p w' paths)"

definition processAllImages ::
  "(int \<Rightarrow> dbl \<Rightarrow> int \<Rightarrow> bool \<Rightarrow> 'img \<Rightarrow> error + 'img) \<Rightarrow> image_processor \<Rightarrow> 'img world \<Rightarrow>
   error + 'img world" where
  "processAllImages cv p w = processAllImages_loop cv p w (image_paths p)"

subsection \<open>\<^verbatim>\<open>batchProcess\<close>\<close>

text \<open>\<^verbatim>\<open>std::to_string\<close> of an \<^verbatim>\<open>int\<close>: the decimal digits, after a \<^verbatim>\<open>-\<close> for a negative
  value.\<close>

definition digit_char :: "nat \<Rightarrow> char" where
  "digit_char d = ''0123456789'' ! d"

fun to_string_nat :: "nat \<Rightarrow> string" where
  "to_string_nat n =
     (if n < 10 then [digit_char n] else to_string_nat (n div 10) @ [digit_char (n mod 10)])"

definition to_string :: "int \<Rightarrow> string" where
  "to_string i = (if i < 0 then CHR ''-'' # to_string_nat (nat (- i)) else to_string_nat (nat i))"

text \<open>The name of the subfolder of a parameter combination, from the blur size and
  the integer \<^verbatim>\<open>static_cast<int>(contrast * 10)\<close>.\<close>

definition param_dir :: "string \<Rightarrow> int \<Rightarrow> int \<Rightarrow> string" where
  "param_dir output_dir' blur k =
     output_dir' @ ''/blur'' @ to_string blur @ ''_contrast'' @ to_string k"

text \<open>The body of the inner loop: one parameter combination.\<close>

definition batchProcess_cell ::
  "(int \<Rightarrow> dbl \<Rightarrow> int \<Rightarrow> bool \<Rightarrow> 'img \<Rightarrow> error + 'img) \<Rightarrow> int \<Rightarrow> dbl \<Rightarrow>
   'img world \<times> image_processor \<Rightarrow> error + ('img world \<times> image_processor)" where
  "batchProcess_cell cv blur contrast state =
     (case state of (w, p) \<Rightarrow>
       (case int_of_double (dmul contrast (Fin 10)) of
          Inl e \<Rightarrow> Inl e
        | Inr k \<Rightarrow>
           (case ensure_directory (param_dir (output_dir p) blur k) (dirs w) of
              Inl e \<Rightarrow> Inl e
            | Inr fs' \<Rightarrow>
               (let p1 = setProcessingParameters p blur contrast (contrast_beta p)
                           (apply_edge_detection p);
                    original_output_dir = output_dir p1;
                    p2 = p1\<lparr>output_dir := param_dir (output_dir p) blur k\<rparr>
                in case processAllImages cv p2 (w\<lparr>dirs := fs'\<rparr>) of
                     Inl e \<Rightarrow> Inl e
                   | Inr w' \<Rightarrow> Inr (w', p2\<lparr>output_dir := original_output_dir\<rparr>)))))"

text \<open>The inner loop \<^verbatim>\<open>for (double contrast : contrast_values)\<close> and the outer loop
  \<^verbatim>\<open>for (int blur : blur_sizes)\<close>.\<close>

fun batchProcess_contrasts ::
  "(int \<Rightarrow> dbl \<Rightarrow> int \<Rightarrow> bool \<Rightarrow> 'img \<Rightarrow> error + 'img) \<Rightarrow> int \<Rightarrow> dbl list \<Rightarrow>
   'img world \<times> image_processor \<Rightarrow> error + ('img world \<times> image_processor)" where
  "batchProcess_contrasts cv blur [] state = Inr state"
| "batchProcess_contrasts cv blur (contrast # contrast_values) state =
     (case batchProcess_cell cv blur contrast state of
        Inl e \<Rightarrow> Inl e
      | Inr state' \<Rightarrow> batchProcess_contrasts cv blur contrast_values state')"

fun batchProcess ::
  "(int \<Rightarrow> dbl \<Rightarrow> int \<Rightarrow> bool \<Rightarrow> 'img \<Rightarrow> error + 'img) \<Rightarrow> int list \<Rightarrow> dbl list \<Rightarrow>
   'img world \<times> image_processor \<Rightarrow> error + ('img world \<times> image_processor)" where
  "batchProcess cv [] contrast_values state = Inr state"
| "batchProcess cv (blur # blur_sizes) contrast_values state =
     (case batchProcess_contrasts cv blur contrast_values state of
        Inl e \<Rightarrow> Inl e
      | Inr state' \<Rightarrow> batchProcess cv blur_sizes contrast_values state')"

subsection \<open>\<^verbatim>\<open>analyzeImages\<close>\<close>

text \<open>
  The loop over the paths keeps \<^verbatim>\<open>total_size\<close> (a \<^verbatim>\<open>size_t\<close>) and the four extrema.
  \<open>file_size\<close> is \<^verbatim>\<open>fs::file_size\<close>, which may throw, and \<open>dimensions\<close> gives the
  \<^verbatim>\<open>cols\<close> and \<^verbatim>\<open>rows\<close> of the image that \<^verbatim>\<open>cv::imread\<close> decodes, \<open>None\<close> for an empty
  one.
\<close>

record analysis =
  number_of_images :: nat
  total_size :: nat
  total_mb :: dbl
  average_kb :: dbl
  min_width :: int
  max_width :: int
  min_height :: int
  max_height :: int

datatype report = NoImagesToAnalyze | ImageAnalysis analysis

definition INT_MAX :: int where
  "INT_MAX = 2 ^ 31 - 1"

fun analyzeImages_loop ::
  "(string \<Rightarrow> error + nat) \<Rightarrow> (string \<Rightarrow> (int \<times> int) option) \<Rightarrow> string list \<Rightarrow>
   nat \<times> int \<times> int \<times> int \<times> int \<Rightarrow> error + (nat \<times> int \<times> int \<times> int \<times> int)" where
  "analyzeImages_loop file_size dimensions [] acc = Inr acc"
| "analyzeImages_loop file_size dimensions (path # paths) acc =
     (case acc of (total_sz, min_w, max_w, min_h, max_h) \<Rightarrow>
       (case file_size path of
          Inl e \<Rightarrow> Inl e
        | Inr size_of_file \<Rightarrow>
           (let total' = (total_sz + size_of_file) mod 2 ^ 64
            in case dimensions path of
                 None \<Rightarrow> analyzeImages_loop file_size dimensions paths
                           (total', min_w, max_w, min_h, max_h)
               | Some (cols, rows) \<Rightarrow>
                   analyzeImages_loop file_size dimensions paths
                     (total', min min_w cols, max max_w cols, min min_h rows, max max_h rows))))"

definition analyzeImages ::
  "(string \<Rightarrow> error + nat) \<Rightarrow> (string \<Rightarrow> (int \<times> int) option) \<Rightarrow> image_processor \<Rightarrow>
   error + report" where
  "analyzeImages file_size dimensions p =
     (if image_paths p = [] then Inr NoImagesToAnalyze
      else
        (case analyzeImages_loop file_size dimensions (image_paths p)
                (0, INT_MAX, 0, INT_MAX, 0) of
           Inl e \<Rightarrow> Inl e
         | Inr (total_sz, min_w, max_w, min_h, max_h) \<Rightarrow>
             Inr (ImageAnalysis
               \<lparr>number_of_images = length (image_paths p),
                total_size = total_sz,
                total_mb = ddiv (double_of_size_t total_sz) (dmul (Fin 1024) (Fin 1024)),
                average_kb = ddiv (double_of_size_t total_sz)
                               (dmul (Fin 1024) (double_of_size_t (length (image_paths p)))),
                min_width = min_w, max_width = max_w,
                min_height = min_h, max_height = max_h\<rparr>)))"

section \<open>Notions used in the statements\<close>

text \<open>The clipped window of sample \<open>i\<close> in a signal of \<open>n\<close> samples, for the window size
  \<open>w\<close>: the closed range from \<open>window_lo w i\<close> to \<open>window_hi w n i\<close>.\<close>

definition window_lo :: "int \<Rightarrow> nat \<Rightarrow> int" where
  "window_lo w i = max 0 (int i - w sdiv 2)"

definition window_hi :: "int \<Rightarrow> nat \<Rightarrow> nat \<Rightarrow> int" where
  "window_hi w n i = min (int n - 1) (int i + w sdiv 2)"

definition window_samples :: "dbl list \<Rightarrow> int \<Rightarrow> int \<Rightarrow> dbl list" where
  "window_samples signal lo hi = map (\<lambda>k. signal ! nat k) [lo..hi]"

text \<open>The arithmetic mean of a list of doubles, in double arithmetic: their sum,
  added up from \<^verbatim>\<open>0.0\<close> in the order of the list, divided by their number. Every
  addition and the division round; the mean of no sample is \<^verbatim>\<open>0.0 / 0\<close>, which is NaN.\<close>

definition double_sum :: "dbl list \<Rightarrow> dbl" where
  "double_sum xs = foldl dadd (Fin 0) xs"


definition mean :: "dbl list \<Rightarrow> dbl" where
  "mean xs = ddiv (double_sum xs) (double_of_int (int (length xs)))"

text \<open>The arithmetic mean of a list of reals.\<close>

definition arithmetic_mean :: "real list \<Rightarrow> real" where
  "arithmetic_mean xs = sum_list xs / real (length xs)"

definition clipped_mean :: "int \<Rightarrow> dbl list \<Rightarrow> nat \<Rightarrow> dbl" where
  "clipped_mean w signal i =
     mean (window_samples signal (window_lo w i) (window_hi w (length signal) i))"

text \<open>Sample \<open>i\<close> is a strict local maximum above the threshold \<open>t\<close>.\<close>

definition strict_peak :: "dbl \<Rightarrow> dbl list \<Rightarrow> nat \<Rightarrow> bool" where
  "strict_peak t filtered i =
     (dgt (filtered ! i) (filtered ! (i - 1)) \<and> dgt (filtered ! i) (filtered ! (i + 1)) \<and>
      dgt (filtered ! i) t)"

text \<open>What the parsing loop keeps of a line: the value of its numeric prefix (the
  double nearest to it), when \<^verbatim>\<open>strtod\<close> finds one and reports no \<^verbatim>\<open>ERANGE\<close> for it.\<close>

definition retained_sample :: "(real \<Rightarrow> bool) \<Rightarrow> string \<Rightarrow> dbl option" where
  "retained_sample tiny_erange line =
     (case strtod line of
        None \<Rightarrow> None
      | Some (d, rest) \<Rightarrow> if erange tiny_erange d then None else Some (nearest_double d))"

text \<open>The value of the decimal number with the digits \<open>ip\<close> before the point and the
  digits \<open>fp\<close> after it.\<close>

definition decimal_value :: "string \<Rightarrow> string \<Rightarrow> real" where
  "decimal_value ip fp =
     real (number_of 10 (map (\<lambda>c. the (digit_value c)) ip)) +
     real (number_of 10 (map (\<lambda>c. the (digit_value c)) fp)) / 10 ^ length fp"

text \<open>The row written for sample \<open>k\<close>.\<close>

definition output_row :: "(dbl \<Rightarrow> string) \<Rightarrow> dbl list \<Rightarrow> dbl list \<Rightarrow> nat list \<Rightarrow> nat \<Rightarrow> string" where
  "output_row fmt signal filtered peaks k =
     fmt (signal ! k) @ '','' @ fmt (filtered ! k) @ '','' @ (if k \<in> set peaks then ''1'' else ''0'')"

text \<open>
  The statistics of a corpus that is not empty, for the file sizes \<open>sz\<close> and the
  dimensions \<open>dims\<close> of the files that decode: the byte sizes of all files are added up
  (in \<^verbatim>\<open>size_t\<close>), the extrema range over the decodable files and the initial values
  \<^verbatim>\<open>INT_MAX\<close> and \<open>0\<close>; the total in megabytes is the quotient, in double arithmetic, of
  the byte total by \<open>1024 * 1024\<close>, and the average in kilobytes its quotient by \<open>1024\<close>
  times the number of paths.
\<close>

definition corpus_statistics ::
  "(string \<Rightarrow> nat) \<Rightarrow> (string \<Rightarrow> (int \<times> int) option) \<Rightarrow> string list \<Rightarrow> analysis" where
  "corpus_statistics sz dims paths =
     (let total = sum_list (map sz paths) mod 2 ^ 64;
          decoded = List.map_filter dims paths
      in \<lparr>number_of_images = length paths,
          total_size = total,
          total_mb = ddiv (double_of_size_t total) (dmul (Fin 1024) (Fin 1024)),
          average_kb = ddiv (double_of_size_t total)
                         (dmul (Fin 1024) (double_of_size_t (length paths))),
          min_width = Min (set (INT_MAX # map fst decoded)),
          max_width = Max (set (0 # map fst decoded)),
          min_height = Min (set (INT_MAX # map snd decoded)),
          max_height = Max (set (0 # map snd decoded))\<rparr>)"

text \<open>
  The location that a path without \<^verbatim>\<open>..\<close> denotes when it denotes one: its names, that
  is its components other than the empty one and \<^verbatim>\<open>.\<close>, after the location it starts
  from.
\<close>

definition names :: "string \<Rightarrow> string list" where
  "names p = filter (\<lambda>c. c \<noteq> [] \<and> c \<noteq> ''.'') (components p)"

definition lexical_location :: "filesystem \<Rightarrow> string \<Rightarrow> location" where
  "lexical_location fs p = start_of fs p @ names p"

text \<open>In a well-formed file system every entry lies in a directory.\<close>

definition well_formed :: "filesystem \<Rightarrow> bool" where
  "well_formed fs =
     (\<forall>l t. map_of (entries fs) l = Some t \<longrightarrow>
        l \<noteq> [] \<and> status_at fs (butlast l) = Some Directory)"

text \<open>One pass over a list of (blur, contrast) pairs, running the body of the sweep
  for each pair in turn and stopping at the first exception.\<close>

fun run_cells ::
  "(int \<Rightarrow> dbl \<Rightarrow> int \<Rightarrow> bool \<Rightarrow> 'img \<Rightarrow> error + 'img) \<Rightarrow> (int \<times> dbl) list \<Rightarrow>
   'img world \<times> image_processor \<Rightarrow> error + ('img world \<times> image_processor)" where
  "run_cells cv [] state = Inr state"
| "run_cells cv ((blur, contrast) # cells) state =
     (case batchProcess_cell cv blur contrast state of
        Inl e \<Rightarrow> Inl e
      | Inr state' \<Rightarrow> run_cells cv cells state')"

section \<open>Machine integers\<close>

declare movingAverage_window.simps [simp del]
declare movingAverage_loop.simps [simp del]
declare findPeaks_loop.simps [simp del]
declare write_rows.simps [simp del]
declare binade_from.simps [simp del]

lemma size_minus_1_Nil: "size_minus_1 [] = 2 ^ 64 - 1"
  by (simp add: size_minus_1_def unsigned_minus_1_eq_mask mask_eq_exp_minus_1)

lemma size_minus_1_pos:
  assumes "0 < length v" and "length v < 2 ^ 64"
  shows "size_minus_1 v = length v - 1"
proof -
  obtain m where m: "length v = Suc m"
    using assms(1) by (cases "length v") auto
  have "(word_of_nat (Suc m) :: 64 word) - 1 = word_of_nat m"
    by simp
  moreover have "unat (word_of_nat m :: 64 word) = m"
    using assms(2) m by (simp add: unat_of_nat)
  ultimately show ?thesis
    by (simp add: size_minus_1_def m)
qed

lemma int_of_size_t_small: "n < 2 ^ 31 \<Longrightarrow> int_of_size_t n = int n"
  by (simp add: int_of_size_t_def signed_of_nat signed_take_bit_int_eq_self)

lemma sdiv_2_nonneg: "- 1 \<le> (w::int) \<Longrightarrow> 0 \<le> w sdiv 2"
  by (simp add: signed_divide_int_def sgn_if)

lemma sdiv_2_negative: "(w::int) \<le> - 2 \<Longrightarrow> w sdiv 2 \<le> - 1"
  by (simp add: signed_divide_int_def sgn_if)

section \<open>Rounding\<close>

lemma powi_less_D: "(2::real) powi k < 2 powi e \<Longrightarrow> k < e"
proof (rule ccontr)
  assume lt: "(2::real) powi k < 2 powi e" and "\<not> k < e"
  then have "e \<le> k"
    by simp
  then have "(2::real) powi e \<le> 2 powi k"
    by (intro power_int_increasing) simp_all
  with lt show False
    by simp
qed

text \<open>The search finds the binary exponent.\<close>

lemma binade_from_eq:
  "e \<le> k \<Longrightarrow> - 1022 \<le> e \<Longrightarrow> 2 powi e \<le> a \<Longrightarrow> a < 2 powi (e + 1) \<Longrightarrow> binade_from a k = e"
proof (induction a k rule: binade_from.induct)
  case (1 a k)
  show ?case
  proof (cases "k \<le> - 1022")
    case True
    with 1(2,3) show ?thesis
      by (subst binade_from.simps) simp
  next
    case False
    show ?thesis
    proof (cases "2 powi k \<le> a")
      case True
      with 1(5) have "(2::real) powi k < 2 powi (e + 1)"
        by simp
      then have "k < e + 1"
        by (rule powi_less_D)
      with 1(2) True False show ?thesis
        by (subst binade_from.simps) simp
    next
      case np: False
      with 1(4) have "k \<noteq> e"
        by auto
      with 1(2) have "e \<le> k - 1"
        by simp
      then have "binade_from a (k - 1) = e"
        using False np 1(3,4,5) by (intro "1.IH") simp_all
      with False np show ?thesis
        by (subst binade_from.simps) simp
    qed
  qed
qed

lemma binade_eq:
  "- 1022 \<le> e \<Longrightarrow> e \<le> 1023 \<Longrightarrow> 2 powi e \<le> a \<Longrightarrow> a < 2 powi (e + 1) \<Longrightarrow> binade a = e"
  unfolding binade_def by (rule binade_from_eq)

lemma binade_from_small:
  "- 1022 \<le> k \<Longrightarrow> a < 2 powi (- 1022) \<Longrightarrow> binade_from a k = - 1022"
proof (induction a k rule: binade_from.induct)
  case (1 a k)
  show ?case
  proof (cases "k \<le> - 1022")
    case True
    then show ?thesis
      by (subst binade_from.simps) simp
  next
    case False
    have "(2::real) powi (- 1022) \<le> 2 powi k"
      using 1(2) by (intro power_int_increasing) simp_all
    with 1(3) have np: "\<not> 2 powi k \<le> a"
      by simp
    have "binade_from a (k - 1) = - 1022"
      using False np 1(3) by (intro "1.IH") simp_all
    with False np show ?thesis
      by (subst binade_from.simps) simp
  qed
qed

lemma binade_small: "a < 2 powi (- 1022) \<Longrightarrow> binade a = - 1022"
  unfolding binade_def by (rule binade_from_small) simp

lemma binade_from_ge: "- 1022 \<le> k \<Longrightarrow> - 1022 \<le> binade_from a k"
proof (induction a k rule: binade_from.induct)
  case (1 a k)
  show ?case
  proof (cases "k \<le> - 1022 \<or> 2 powi k \<le> a")
    case True
    with 1(2) show ?thesis
      by (subst binade_from.simps) auto
  next
    case False
    then have "- 1022 \<le> binade_from a (k - 1)"
      by (intro "1.IH") simp_all
    with False show ?thesis
      by (subst binade_from.simps) simp
  qed
qed

lemma binade_from_le: "binade_from a k = - 1022 \<or> 2 powi (binade_from a k) \<le> a"
proof (induction a k rule: binade_from.induct)
  case (1 a k)
  show ?case
  proof (cases "k \<le> - 1022 \<or> 2 powi k \<le> a")
    case True
    then show ?thesis
      by (subst (1 2) binade_from.simps) auto
  next
    case False
    then have "binade_from a (k - 1) = - 1022 \<or> 2 powi (binade_from a (k - 1)) \<le> a"
      by (intro "1.IH") simp_all
    with False show ?thesis
      by (subst (1 2) binade_from.simps) simp
  qed
qed

lemma round_half_even_of_int: "round_half_even (of_int n) = n"
  by (simp add: round_half_even_def)

text \<open>How a real of known binary exponent is rounded.\<close>

lemma round_double_eq:
  assumes "2 powi e \<le> \<bar>x\<bar>" and "\<bar>x\<bar> < 2 powi (e + 1)" and "- 1022 \<le> e" and "e \<le> 1023"
    and "\<bar>x\<bar> < 2 ^ 1024 - 2 ^ 970"
  shows "round_double x = Fin (of_int (round_half_even (x / 2 powi (e - 52))) * 2 powi (e - 52))"
  using assms binade_eq [of e "\<bar>x\<bar>"] by (simp add: round_double_def Let_def)

text \<open>Below the least normal double the doubles are the multiples of \<open>2 ^ - 1074\<close>.\<close>

lemma round_double_subnormal:
  assumes "\<bar>x\<bar> < 2 powi (- 1022)"
  shows "round_double x = Fin (of_int (round_half_even (x / 2 powi (- 1074))) * 2 powi (- 1074))"
proof -
  have "\<bar>x\<bar> < 1"
    using assms by (rule less_le_trans) simp
  then have "\<bar>x\<bar> < 2 ^ 1024 - 2 ^ 970"
    by (rule less_le_trans) simp
  then show ?thesis
    using binade_small [OF assms] by (simp add: round_double_def Let_def)
qed

text \<open>
  A real that is a double is rounded to itself: the doubles are the reals
  \<open>m * 2 ^ k\<close> with \<open>\<bar>m\<bar> < 2 ^ 53\<close> and \<open>- 1074 \<le> k\<close> below the overflow threshold.
\<close>

lemma round_double_exact:
  assumes x: "x = of_int m * 2 powi k" and m: "\<bar>m\<bar> < 2 ^ 53" and k: "- 1074 \<le> k"
    and r: "\<bar>x\<bar> < 2 ^ 1024 - 2 ^ 970"
  shows "round_double x = Fin x"
proof -
  define E where "E = binade \<bar>x\<bar>"
  have ge: "- 1022 \<le> E"
    unfolding E_def binade_def by (rule binade_from_ge) simp
  have le: "E = - 1022 \<or> 2 powi E \<le> \<bar>x\<bar>"
    unfolding E_def binade_def by (rule binade_from_le)
  have Ek: "E - 52 \<le> k"
  proof (cases "E = - 1022")
    case True
    with k show ?thesis
      by simp
  next
    case False
    with le have "2 powi E \<le> \<bar>x\<bar>"
      by simp
    also have "\<bar>x\<bar> = real_of_int \<bar>m\<bar> * 2 powi k"
      by (simp add: x abs_mult power_int_abs)
    also have "\<dots> < 2 ^ 53 * 2 powi k"
    proof (rule mult_strict_right_mono)
      have "real_of_int \<bar>m\<bar> < real_of_int (2 ^ 53)"
        using m by (simp only: of_int_less_iff)
      then show "real_of_int \<bar>m\<bar> < 2 ^ 53"
        by simp
    qed simp
    also have "\<dots> = 2 powi (53 + k)"
      by (simp add: power_int_add)
    finally have "E < 53 + k"
      by (rule powi_less_D)
    then show ?thesis
      by simp
  qed
  define q :: real where "q = 2 powi (E - 52)"
  have q0: "q \<noteq> 0"
    by (simp add: q_def)
  have "2 powi k = (2::real) powi (k - (E - 52)) * 2 powi (E - 52)"
    by (simp flip: power_int_add)
  also have "(2::real) powi (k - (E - 52)) = 2 ^ nat (k - (E - 52))"
    using Ek by (simp add: power_int_nonneg_exp)
  finally have "x / q = real_of_int (m * 2 ^ nat (k - (E - 52)))"
    using q0 by (simp add: x q_def)
  then have "of_int (round_half_even (x / q)) * q = (x / q) * q"
    by (simp only: round_half_even_of_int)
  also have "\<dots> = x"
    using q0 by simp
  finally show ?thesis
    using r by (simp add: round_double_def E_def [symmetric] q_def [symmetric] Let_def)
qed

lemma round_double_int: "\<bar>n\<bar> < 2 ^ 53 \<Longrightarrow> round_double (real_of_int n) = Fin (real_of_int n)"
proof -
  assume n: "\<bar>n\<bar> < 2 ^ 53"
  then have "real_of_int \<bar>n\<bar> < real_of_int (2 ^ 53)"
    by (simp only: of_int_less_iff)
  then have "\<bar>real_of_int n\<bar> < 2 ^ 1024 - 2 ^ 970"
    by simp
  with n show ?thesis
    by (intro round_double_exact [of _ n 0]) simp_all
qed

lemma round_double_nat: "n < 2 ^ 53 \<Longrightarrow> round_double (real n) = Fin (real n)"
  using round_double_int [of "int n"] by simp

lemma round_double_0: "round_double 0 = Fin 0"
  using round_double_int [of 0] by simp

lemma round_double_1: "round_double 1 = Fin 1"
  using round_double_int [of 1] by simp

lemma round_double_numeral:
  "(numeral k :: int) < 2 ^ 53 \<Longrightarrow> round_double (numeral k) = Fin (numeral k)"
  using round_double_int [of "numeral k"] by simp

lemma round_double_dyadic:
  assumes "\<bar>m\<bar> < 2 ^ 53" and "k \<le> 1074"
  shows "round_double (real_of_int m / 2 ^ k) = Fin (real_of_int m / 2 ^ k)"
proof -
  have "real_of_int \<bar>m\<bar> < real_of_int (2 ^ 53)"
    using assms(1) by (simp only: of_int_less_iff)
  then have m: "\<bar>real_of_int m\<bar> < 2 ^ 53"
    by simp
  have "\<bar>real_of_int m / 2 ^ k\<bar> = \<bar>real_of_int m\<bar> / 2 ^ k"
    by simp
  also have "\<dots> \<le> \<bar>real_of_int m\<bar> / 1"
    by (intro divide_left_mono) simp_all
  finally have "\<bar>real_of_int m / 2 ^ k\<bar> < 2 ^ 1024 - 2 ^ 970"
    using m by simp
  moreover have "real_of_int m / 2 ^ k = real_of_int m * 2 powi (- int k)"
    by (simp add: power_int_minus field_simps)
  ultimately show ?thesis
    using assms by (intro round_double_exact [of _ m "- int k"]) simp_all
qed

lemmas round_double_simps = round_double_0 round_double_1 round_double_numeral

lemma double_of_int_small: "\<bar>k\<bar> < 2 ^ 53 \<Longrightarrow> double_of_int k = Fin (real_of_int k)"
  by (simp add: double_of_int_def round_double_int)

text \<open>The sum of the two greatest powers of two overflows.\<close>

lemma dadd_overflow: "dadd (Fin (2 ^ 1023)) (Fin (2 ^ 1023)) = PInf"
  by (simp add: round_double_def)

text \<open>Some roundings: a tenth and a third, ties at one and in the subnormal range, the
  greatest finite double and the overflow threshold.\<close>

lemma round_double_examples:
  "round_double (1 / 10) = Fin (3602879701896397 / 2 ^ 55)"
  "round_double (- (1 / 3)) = Fin (- (6004799503160661 / 2 ^ 54))"
  "round_double (1 + 1 / 2 ^ 53) = Fin 1"
  "round_double (1 + 3 / 2 ^ 53) = Fin (1 + 1 / 2 ^ 51)"
  "round_double (3 / 2 ^ 1075) = Fin (1 / 2 ^ 1073)"
  "round_double (1 / 2 ^ 1075) = Fin 0"
  "round_double (2 ^ 1024 - 2 ^ 971) = Fin (2 ^ 1024 - 2 ^ 971)"
  "round_double (2 ^ 1024 - 2 ^ 970) = PInf"
  "round_double (- (2 ^ 1024)) = NInf"
proof -
  show "round_double (1 / 10) = Fin (3602879701896397 / 2 ^ 55)"
    using round_double_eq [of "- 4" "1 / 10"] by (simp add: round_half_even_def)
  show "round_double (- (1 / 3)) = Fin (- (6004799503160661 / 2 ^ 54))"
    using round_double_eq [of "- 2" "- (1 / 3)"] by (simp add: round_half_even_def)
  show "round_double (1 + 1 / 2 ^ 53) = Fin 1"
    using round_double_eq [of 0 "1 + 1 / 2 ^ 53"] by (simp add: round_half_even_def)
  show "round_double (1 + 3 / 2 ^ 53) = Fin (1 + 1 / 2 ^ 51)"
    using round_double_eq [of 0 "1 + 3 / 2 ^ 53"] by (simp add: round_half_even_def)
  show "round_double (3 / 2 ^ 1075) = Fin (1 / 2 ^ 1073)"
    using round_double_subnormal [of "3 / 2 ^ 1075"] by (simp add: round_half_even_def)
  show "round_double (1 / 2 ^ 1075) = Fin 0"
    using round_double_subnormal [of "1 / 2 ^ 1075"] by (simp add: round_half_even_def)
  show "round_double (2 ^ 1024 - 2 ^ 971) = Fin (2 ^ 1024 - 2 ^ 971)"
    using round_double_exact [of "2 ^ 1024 - 2 ^ 971" "2 ^ 53 - 1" 971] by simp
  show "round_double (2 ^ 1024 - 2 ^ 970) = PInf"
    by (simp add: round_double_def)
  show "round_double (- (2 ^ 1024)) = NInf"
    by (simp add: round_double_def)
qed

text \<open>The double nearest to seven tenths, times ten, is seven.\<close>

lemma dmul_seven_tenths: "dmul (Fin (3152519739159347 / 2 ^ 52)) (Fin 10) = Fin 7"
  using round_double_eq [of 2 "3152519739159347 / 2 ^ 52 * 10"]
  by (simp add: round_half_even_def)

lemma seven_tenths_is_double:
  "round_double (7 / 10) = Fin (3152519739159347 / 2 ^ 52)"
  using round_double_eq [of "- 1" "7 / 10"]
  by (simp add: round_half_even_def)

section \<open>The moving average\<close>

lemma movingAverage_window_eq:
  "0 \<le> j \<Longrightarrow> w_end < int (length signal) \<Longrightarrow> w_end < 2 ^ 31 - 1 \<Longrightarrow> j \<le> w_end + 1 \<Longrightarrow>
   0 \<le> count \<Longrightarrow> count + (w_end + 1 - j) < 2 ^ 31 \<Longrightarrow>
   movingAverage_window signal w_end j acc count =
     Inr (foldl dadd acc (window_samples signal j w_end), count + (w_end + 1 - j))"
proof (induction signal w_end j acc count rule: movingAverage_window.induct)
  case (1 signal w_end j acc count)
  show ?case
  proof (cases "j \<le> w_end")
    case False
    with 1 show ?thesis
      by (subst movingAverage_window.simps) (simp add: window_samples_def)
  next
    case True
    have at: "vec_at signal (size_t_of_int j) = Inr (signal ! nat j)"
      using True 1(2,3,4) by (simp add: vec_at_def size_t_of_int_def)
    have c: "int_result (count + 1) = Inr (count + 1)"
      using True 1 by (simp add: int_result_def)
    have j: "int_result (j + 1) = Inr (j + 1)"
      using True 1 by (simp add: int_result_def)
    have ws: "window_samples signal j w_end = signal ! nat j # window_samples signal (j + 1) w_end"
      using True by (simp add: window_samples_def upto_rec1)
    have "movingAverage_window signal w_end (j + 1) (dadd acc (signal ! nat j)) (count + 1) =
            Inr (foldl dadd (dadd acc (signal ! nat j)) (window_samples signal (j + 1) w_end),
                 (count + 1) + (w_end + 1 - (j + 1)))"
      using True 1(2-) by (intro "1.IH" [OF True at c j]) auto
    then show ?thesis
      using True at c j ws by (subst movingAverage_window.simps) simp
  qed
qed

text \<open>The boundaries of the window of sample \<open>i\<close>, when the \<^verbatim>\<open>int\<close> arithmetic does not
  overflow at \<open>i\<close>.\<close>

lemma movingAverage_bounds_eq:
  assumes "length signal < 2 ^ 31" and "int i + \<bar>w sdiv 2\<bar> < 2 ^ 31" and "i < length signal"
  shows "movingAverage_bounds w signal i = Inr (window_lo w i, window_hi w (length signal) i)"
proof -
  have i: "int_of_size_t i = int i"
    using assms(1,3) by (simp add: int_of_size_t_small)
  have pos: "0 < length signal"
    using assms(3) by (cases signal) simp_all
  have n64: "length signal < 2 ^ 64"
    using assms(1) by (rule less_trans) simp
  have "size_minus_1 signal = length signal - 1"
    by (rule size_minus_1_pos [OF pos n64])
  then have m: "int_of_size_t (size_minus_1 signal) = int (length signal) - 1"
    using assms(1,3) by (simp add: int_of_size_t_small of_nat_diff)
  have "- (2 ^ 31) \<le> int i - w sdiv 2" "int i - w sdiv 2 < 2 ^ 31"
    "- (2 ^ 31) \<le> int i + w sdiv 2" "int i + w sdiv 2 < 2 ^ 31"
    using assms(2) by linarith+
  then have lo: "int_result (int i - w sdiv 2) = Inr (int i - w sdiv 2)"
    and hi: "int_result (int i + w sdiv 2) = Inr (int i + w sdiv 2)"
    by (simp_all add: int_result_def)
  show ?thesis
    by (simp add: movingAverage_bounds_def i m lo hi window_lo_def window_hi_def)
qed

lemma window_contains_self:
  assumes "- 1 \<le> w" and "i < n"
  shows "window_lo w i \<le> int i \<and> int i \<le> window_hi w n i"
  using sdiv_2_nonneg [OF assms(1)] assms(2) by (simp add: window_lo_def window_hi_def)

lemma window_empty:
  assumes "w \<le> - 2"
  shows "window_hi w n i < window_lo w i"
  using sdiv_2_negative [OF assms] by (simp add: window_lo_def window_hi_def)

lemma mean_Nil: "mean [] = NaN"
  by (simp add: mean_def double_sum_def double_of_int_def round_double_0)

lemma movingAverage_window_mean:
  assumes "length signal < 2 ^ 31" and "i < length signal"
  shows "\<exists>acc count.
           movingAverage_window signal (window_hi w (length signal) i) (window_lo w i) (Fin 0) 0 =
             Inr (acc, count) \<and>
           ddiv acc (double_of_int count) = clipped_mean w signal i"
proof -
  let ?lo = "window_lo w i" and ?hi = "window_hi w (length signal) i"
  show ?thesis
  proof (cases "?lo \<le> ?hi")
    case True
    have lo0: "0 \<le> ?lo"
      by (simp add: window_lo_def)
    have hin: "?hi < int (length signal)"
      by (simp add: window_hi_def)
    have eq: "movingAverage_window signal ?hi ?lo (Fin 0) 0 =
        Inr (foldl dadd (Fin 0) (window_samples signal ?lo ?hi), 0 + (?hi + 1 - ?lo))"
      using lo0 hin True assms(1) by (intro movingAverage_window_eq) auto
    have len: "int (length (window_samples signal ?lo ?hi)) = ?hi + 1 - ?lo"
      using True by (simp add: window_samples_def)
    show ?thesis
      using eq by (simp add: clipped_mean_def mean_def double_sum_def len)
  next
    case False
    then have "movingAverage_window signal ?hi ?lo (Fin 0) 0 = Inr (Fin 0, 0)"
      by (subst movingAverage_window.simps) simp
    moreover have "window_samples signal ?lo ?hi = []"
      using False by (simp add: window_samples_def)
    ultimately show ?thesis
      by (simp add: clipped_mean_def mean_def double_sum_def)
  qed
qed

lemma movingAverage_loop_eq:
  "int (length signal) + \<bar>w sdiv 2\<bar> < 2 ^ 31 \<Longrightarrow>
   length result = length signal \<Longrightarrow> i \<le> length signal \<Longrightarrow>
   movingAverage_loop w signal i result =
     Inr (take i result @ map (clipped_mean w signal) [i..<length signal])"
proof (induction w signal i result rule: movingAverage_loop.induct)
  case (1 w signal i result)
  show ?case
  proof (cases "i < length signal")
    case False
    with 1(3,4) show ?thesis
      by (subst movingAverage_loop.simps) simp
  next
    case True
    let ?lo = "window_lo w i" and ?hi = "window_hi w (length signal) i"
    let ?v = "clipped_mean w signal i"
    have "int (length signal) < int (2 ^ 31)"
      using "1.prems"(1) by simp
    then have n: "length signal < 2 ^ 31"
      by (simp only: of_nat_less_iff)
    have "int i + \<bar>w sdiv 2\<bar> < 2 ^ 31"
      using "1.prems"(1) True by simp
    with n have b: "movingAverage_bounds w signal i = Inr (?lo, ?hi)"
      using True by (rule movingAverage_bounds_eq)
    obtain acc count
      where wd: "movingAverage_window signal ?hi ?lo (Fin 0) 0 = Inr (acc, count)"
        and v: "ddiv acc (double_of_int count) = ?v"
      using movingAverage_window_mean [OF n True] by blast
    have "movingAverage_loop w signal (i + 1) (result[i := ddiv acc (double_of_int count)]) =
            Inr (take (i + 1) (result[i := ddiv acc (double_of_int count)]) @
                 map (clipped_mean w signal) [i + 1..<length signal])"
      using "1.prems" True by (intro "1.IH" [OF True b refl wd refl]) simp_all
    moreover have "take (i + 1) (result[i := ?v]) = take i result @ [?v]"
      using True "1.prems"(2) by (simp add: take_Suc_conv_app_nth)
    moreover have "[i..<length signal] = i # [i + 1..<length signal]"
      using True by (simp add: upt_conv_Cons)
    ultimately show ?thesis
      using True b wd v by (subst movingAverage_loop.simps) simp
  qed
qed

lemma movingAverage_eq:
  assumes "int (length signal) + \<bar>w sdiv 2\<bar> < 2 ^ 31"
  shows "movingAverage w signal = Inr (map (clipped_mean w signal) [0..<length signal])"
  using assms by (simp add: movingAverage_def movingAverage_loop_eq)

text \<open>
  Claim C1, as amended. For every window size and every signal for which the \<^verbatim>\<open>int\<close>
  arithmetic of the window boundaries does not overflow (the length of the signal plus
  the magnitude of the half window is below \<open>2 ^ 31\<close>), \<^verbatim>\<open>movingAverage\<close> returns a
  sequence of the length of the input, and the value at index \<open>i\<close> is the mean, in
  double arithmetic, of the samples in the closed range from \<open>max 0 (i - w / 2)\<close> to
  \<open>min (len - 1) (i + w / 2)\<close>, with the half window truncated. For a window size from
  \<open>- 1\<close> on the window of every sample contains the sample itself; for a window size of
  \<open>- 2\<close> or less it is empty, and the value is NaN.
\<close>

theorem movingAverage_clipped_mean:
  assumes "int (length signal) + \<bar>w sdiv 2\<bar> < 2 ^ 31"
  shows "\<exists>result. movingAverage w signal = Inr result \<and>
           length result = length signal \<and>
           (\<forall>i<length signal.
              result ! i = mean (window_samples signal (window_lo w i)
                                   (window_hi w (length signal) i)) \<and>
              (- 1 \<le> w \<longrightarrow>
                 window_lo w i \<le> int i \<and> int i \<le> window_hi w (length signal) i) \<and>
              (w \<le> - 2 \<longrightarrow>
                 window_hi w (length signal) i < window_lo w i \<and> result ! i = NaN))"
proof -
  let ?result = "map (clipped_mean w signal) [0..<length signal]"
  have "movingAverage w signal = Inr ?result"
    using assms by (rule movingAverage_eq)
  moreover have "length ?result = length signal"
    by simp
  moreover have "?result ! i = mean (window_samples signal (window_lo w i)
                                       (window_hi w (length signal) i))"
    if "i < length signal" for i
    using that by (simp add: clipped_mean_def)
  moreover have "window_lo w i \<le> int i \<and> int i \<le> window_hi w (length signal) i"
    if "i < length signal" and "- 1 \<le> w" for i
    using that(2,1) by (rule window_contains_self)
  moreover have "window_hi w (length signal) i < window_lo w i \<and> ?result ! i = NaN"
    if "i < length signal" and "w \<le> - 2" for i
  proof -
    have e: "window_hi w (length signal) i < window_lo w i"
      using that(2) by (rule window_empty)
    then have "window_samples signal (window_lo w i) (window_hi w (length signal) i) = []"
      by (simp add: window_samples_def)
    with e that(1) show ?thesis
      by (simp add: clipped_mean_def mean_Nil)
  qed
  ultimately show ?thesis
    by blast
qed

text \<open>For a window size of \<open>- 2\<close> or less every value is NaN.\<close>

lemma movingAverage_negative_window:
  assumes "w \<le> - 2" and "int (length signal) + \<bar>w sdiv 2\<bar> < 2 ^ 31"
  shows "movingAverage w signal = Inr (replicate (length signal) NaN)"
proof -
  have "clipped_mean w signal i = NaN" for i
    using window_empty [OF assms(1), of "length signal" i]
    by (simp add: clipped_mean_def window_samples_def mean_Nil)
  then have "map (clipped_mean w signal) [0..<length signal] = replicate (length signal) NaN"
    by (intro nth_equalityI) simp_all
  with movingAverage_eq [OF assms(2)] show ?thesis
    by simp
qed

text \<open>The quotient is rounded: a third is the double \<^verbatim>\<open>0x1.5555555555555p-2\<close>.\<close>

lemma ddiv_one_third: "ddiv (Fin 1) (Fin 3) = Fin (6004799503160661 / 2 ^ 54)"
  using round_double_eq [of "- 2" "1 / 3"] by (simp add: round_half_even_def)

text \<open>The signal 2, 4, 6 with the window size 3 gives 3, 4, 5.\<close>

lemma clipped_mean_example:
  "map (clipped_mean 3 [Fin 2, Fin 4, Fin 6]) [0..<3] = [Fin 3, Fin 4, Fin 5]"
proof -
  have "[0..<3] = [0, 1, 2]"
    by (simp add: upt_rec)
  moreover have "[0..1] = [0, 1]" "[0..2] = [0, 1, 2]" "[1..2] = [1, 2]"
    by (simp_all add: upto_rec1)
  ultimately show ?thesis
    by (simp add: clipped_mean_def mean_def double_sum_def window_samples_def window_lo_def
        window_hi_def signed_divide_int_def double_of_int_def round_double_simps)
qed

theorem movingAverage_clipped_mean_witness:
  "int (length [Fin 2, Fin 4, Fin 6]) + \<bar>3 sdiv 2\<bar> < 2 ^ 31 \<and>
   movingAverage 3 [Fin 2, Fin 4, Fin 6] = Inr [Fin 3, Fin 4, Fin 5] \<and>
   int (length [Fin 1]) + \<bar>(- 2) sdiv 2\<bar> < 2 ^ 31 \<and>
   movingAverage (- 2) [Fin 1] = Inr [NaN]"
proof -
  let ?s = "[Fin 2, Fin 4, Fin 6]"
  have a: "int (length ?s) + \<bar>3 sdiv 2\<bar> < 2 ^ 31"
    by (simp add: signed_divide_int_def)
  from movingAverage_clipped_mean [OF a] obtain result
    where r: "movingAverage 3 ?s = Inr result" "length result = length ?s"
      and v: "\<forall>i<length ?s. result ! i = mean (window_samples ?s (window_lo 3 i)
                                                  (window_hi 3 (length ?s) i))"
    by blast
  have "result ! i = [Fin 3, Fin 4, Fin 5] ! i" if "i < 3" for i
  proof -
    have "result ! i = clipped_mean 3 ?s i"
      using v that by (simp add: clipped_mean_def)
    also have "\<dots> = map (clipped_mean 3 ?s) [0..<3] ! i"
      using that by simp
    finally show ?thesis
      by (simp only: clipped_mean_example)
  qed
  then have "result = [Fin 3, Fin 4, Fin 5]"
    using r(2) by (intro nth_equalityI) simp_all
  with r(1) have first: "movingAverage 3 ?s = Inr [Fin 3, Fin 4, Fin 5]"
    by simp
  have b: "int (length [Fin 1]) + \<bar>(- 2) sdiv 2\<bar> < 2 ^ 31"
    by (simp add: signed_divide_int_def)
  from movingAverage_clipped_mean [OF b] obtain result'
    where r': "movingAverage (- 2) [Fin 1] = Inr result'" "length result' = length [Fin 1]"
      and v': "\<forall>i<length [Fin 1]. (- 2 \<le> (- 2 :: int) \<longrightarrow> result' ! i = NaN)"
    by blast
  have "result' = [NaN]"
    using r'(2) v' by (intro nth_equalityI) simp_all
  with r'(1) have "movingAverage (- 2) [Fin 1] = Inr [NaN]"
    by simp
  with a b first show ?thesis
    by blast
qed

text \<open>
  Where the claim fails. With the window size \<open>- 2\<close> the window of the only sample is
  empty and the value is NaN. The sum of the two samples \<open>2 ^ 1023\<close> is an infinity in
  double arithmetic, and so is the value, while their arithmetic mean is \<open>2 ^ 1023\<close>.
  With the window size \<open>- 2 ^ 31\<close> and \<open>2 ^ 30 + 1\<close> samples the lower boundary of the last
  window is not an \<^verbatim>\<open>int\<close>, and nothing is returned.
\<close>

lemma movingAverage_loop_prefix:
  "i \<le> k \<Longrightarrow> k < length signal \<Longrightarrow> movingAverage_bounds w signal k = Inl e \<Longrightarrow>
   (\<And>j. i \<le> j \<Longrightarrow> j < k \<Longrightarrow>
      \<exists>lo hi r. movingAverage_bounds w signal j = Inr (lo, hi) \<and>
                movingAverage_window signal hi lo (Fin 0) 0 = Inr r) \<Longrightarrow>
   movingAverage_loop w signal i result = Inl e"
proof (induction w signal i result rule: movingAverage_loop.induct)
  case (1 w signal i result)
  have lt: "i < length signal"
    using "1.prems"(1,2) by simp
  show ?case
  proof (cases "i = k")
    case True
    with lt "1.prems"(3) show ?thesis
      by (subst movingAverage_loop.simps) simp
  next
    case False
    then have le: "i + 1 \<le> k" and ik: "i < k"
      using "1.prems"(1) by simp_all
    from "1.prems"(4) [OF order_refl ik] obtain lo hi r
      where b: "movingAverage_bounds w signal i = Inr (lo, hi)"
        and wd: "movingAverage_window signal hi lo (Fin 0) 0 = Inr r"
      by blast
    obtain acc count where r: "r = (acc, count)"
      by (cases r)
    have "movingAverage_loop w signal (i + 1) (result[i := ddiv acc (double_of_int count)]) =
            Inl e"
    proof (rule "1.IH" [OF lt b refl wd [unfolded r] refl le "1.prems"(2,3)])
      fix j
      assume "i + 1 \<le> j" and "j < k"
      then show "\<exists>lo hi r. movingAverage_bounds w signal j = Inr (lo, hi) \<and>
                   movingAverage_window signal hi lo (Fin 0) 0 = Inr r"
        by (intro "1.prems"(4)) simp_all
    qed
    then show ?thesis
      using lt b wd r by (subst movingAverage_loop.simps) simp
  qed
qed

lemma movingAverage_int_overflow:
  "movingAverage (- (2 ^ 31)) (replicate (2 ^ 30 + 1) (Fin 0)) = Inl IntOverflow"
proof -
  let ?s = "replicate (2 ^ 30 + 1) (Fin 0) :: dbl list"
  have h: "(- (2 ^ 31) :: int) sdiv 2 = - (2 ^ 30)"
    by (simp add: signed_divide_int_def)
  have n: "length ?s < 2 ^ 31"
    by simp
  have "int_of_size_t (2 ^ 30) = int (2 ^ 30)"
    by (rule int_of_size_t_small) simp
  then have last: "movingAverage_bounds (- (2 ^ 31)) ?s (2 ^ 30) = Inl IntOverflow"
    by (simp add: movingAverage_bounds_def int_result_def h)
  have before: "\<exists>lo hi r. movingAverage_bounds (- (2 ^ 31)) ?s j = Inr (lo, hi) \<and>
                  movingAverage_window ?s hi lo (Fin 0) 0 = Inr r"
    if "j < 2 ^ 30" for j
  proof -
    have "int j < int (2 ^ 30)"
      using that by (simp only: of_nat_less_iff)
    then have "int j + \<bar>(- (2 ^ 31) :: int) sdiv 2\<bar> < 2 ^ 31"
      by (simp add: h)
    moreover have "j < length ?s"
      using that by simp
    ultimately have "movingAverage_bounds (- (2 ^ 31)) ?s j =
        Inr (window_lo (- (2 ^ 31)) j, window_hi (- (2 ^ 31)) (length ?s) j)"
      by (intro movingAverage_bounds_eq [OF n])
    moreover have "window_hi (- (2 ^ 31)) (length ?s) j < window_lo (- (2 ^ 31)) j"
      by (rule window_empty) simp
    then have "movingAverage_window ?s (window_hi (- (2 ^ 31)) (length ?s) j)
                 (window_lo (- (2 ^ 31)) j) (Fin 0) 0 = Inr (Fin 0, 0)"
      by (subst movingAverage_window.simps) simp
    ultimately show ?thesis
      by blast
  qed
  show ?thesis
    unfolding movingAverage_def
    by (rule movingAverage_loop_prefix [where k = "2 ^ 30", OF _ _ last before]) simp_all
qed

lemma movingAverage_overflow_to_infinity:
  "movingAverage 3 [Fin (2 ^ 1023), Fin (2 ^ 1023)] = Inr [PInf, PInf]"
proof -
  let ?s = "[Fin (2 ^ 1023), Fin (2 ^ 1023)]"
  have "int (length ?s) + \<bar>3 sdiv 2\<bar> < 2 ^ 31"
    by (simp add: signed_divide_int_def)
  then have "movingAverage 3 ?s = Inr (map (clipped_mean 3 ?s) [0..<length ?s])"
    by (rule movingAverage_eq)
  moreover have "[0..<length ?s] = [0, 1]"
    by (simp add: upt_rec)
  moreover have "[0..1] = [0, 1]"
    by (simp add: upto_rec1)
  moreover have "dadd (Fin 0) (Fin (2 ^ 1023)) = Fin (2 ^ 1023)"
    using round_double_exact [of "2 ^ 1023" 1 1023] by simp
  moreover have "double_of_int 2 = Fin 2"
    by (simp add: double_of_int_def round_double_simps)
  moreover note dadd_overflow
  ultimately show ?thesis
    by (simp add: clipped_mean_def mean_def double_sum_def window_samples_def window_lo_def
        window_hi_def signed_divide_int_def del: dadd.simps)
qed

theorem movingAverage_not_arithmetic_mean_counterexample:
  "movingAverage (- 2) [Fin 1] = Inr [NaN] \<and>
   \<not> window_lo (- 2) 0 \<le> window_hi (- 2) (length [Fin 1]) 0 \<and>
   movingAverage 3 [Fin (2 ^ 1023), Fin (2 ^ 1023)] = Inr [PInf, PInf] \<and>
   arithmetic_mean [2 ^ 1023, 2 ^ 1023] = 2 ^ 1023 \<and>
   movingAverage (- (2 ^ 31)) (replicate (2 ^ 30 + 1) (Fin 0)) = Inl IntOverflow"
proof -
  have "int (length [Fin 1]) + \<bar>(- 2) sdiv 2\<bar> < 2 ^ 31"
    by (simp add: signed_divide_int_def)
  then have "movingAverage (- 2) [Fin 1] = Inr (map (clipped_mean (- 2) [Fin 1]) [0..<length [Fin 1]])"
    by (rule movingAverage_eq)
  then have "movingAverage (- 2) [Fin 1] = Inr [NaN]"
    by (simp add: clipped_mean_def window_samples_def window_lo_def window_hi_def
        signed_divide_int_def mean_Nil)
  moreover have "\<not> window_lo (- 2) 0 \<le> window_hi (- 2) (length [Fin 1]) 0"
    by (simp add: window_lo_def window_hi_def signed_divide_int_def)
  moreover have "arithmetic_mean [2 ^ 1023, 2 ^ 1023] = 2 ^ 1023"
    by (simp add: arithmetic_mean_def)
  ultimately show ?thesis
    using movingAverage_overflow_to_infinity movingAverage_int_overflow by blast
qed

section \<open>Peak detection\<close>

lemma findPeaks_cond_interior:
  "1 \<le> i \<Longrightarrow> i + 1 < length signal \<Longrightarrow> findPeaks_cond t signal i = Inr (strict_peak t signal i)"
  by (auto simp: findPeaks_cond_def vec_at_def strict_peak_def)

lemma findPeaks_loop_eq:
  "signal \<noteq> [] \<Longrightarrow> length signal < 2 ^ 64 \<Longrightarrow> 1 \<le> i \<Longrightarrow>
   findPeaks_loop t signal i peaks =
     Inr (peaks @ filter (strict_peak t signal) [i..<length signal - 1])"
proof (induction t signal i peaks rule: findPeaks_loop.induct)
  case (1 t signal i peaks)
  have sz: "size_minus_1 signal = length signal - 1"
    using "1.prems"(1,2) by (intro size_minus_1_pos) simp_all
  show ?case
  proof (cases "i < length signal - 1")
    case False
    then show ?thesis
      by (subst findPeaks_loop.simps) (simp add: sz)
  next
    case True
    have lt: "i < size_minus_1 signal"
      using True sz by simp
    have c: "findPeaks_cond t signal i = Inr (strict_peak t signal i)"
      using True "1.prems"(3) by (intro findPeaks_cond_interior) simp_all
    have "findPeaks_loop t signal (i + 1) (if strict_peak t signal i then peaks @ [i] else peaks) =
          Inr ((if strict_peak t signal i then peaks @ [i] else peaks) @
               filter (strict_peak t signal) [i + 1..<length signal - 1])"
      using "1.prems" by (intro "1.IH" [OF lt c]) simp_all
    moreover have "[i..<length signal - 1] = i # [i + 1..<length signal - 1]"
      using True by (simp add: upt_conv_Cons)
    ultimately show ?thesis
      using lt c by (subst findPeaks_loop.simps) simp
  qed
qed

lemma findPeaks_nonempty:
  assumes "signal \<noteq> []" and "length signal < 2 ^ 64"
  shows "findPeaks t signal = Inr (filter (strict_peak t signal) [1..<length signal - 1])"
proof -
  have "findPeaks_loop t signal 1 [] =
          Inr ([] @ filter (strict_peak t signal) [1..<length signal - 1])"
    using assms by (intro findPeaks_loop_eq) simp_all
  then show ?thesis
    by (simp add: findPeaks_def)
qed

text \<open>On a signal that is not empty, \<^verbatim>\<open>findPeaks\<close> returns exactly the interior
  indices that are strict local maxima above the threshold.\<close>

lemma findPeaks_nonempty_set:
  assumes "signal \<noteq> []" and "length signal < 2 ^ 64"
  shows "\<exists>peaks. findPeaks t signal = Inr peaks \<and>
           set peaks = {i. 1 \<le> i \<and> i + 2 \<le> length signal \<and> strict_peak t signal i}"
  using findPeaks_nonempty [OF assms, of t] by auto

lemma dgt_irrefl: "\<not> dgt x x"
  by (cases x) simp_all

text \<open>A flat signal that is not empty has no peak, whatever the threshold.\<close>

lemma findPeaks_flat:
  assumes "signal \<noteq> []" and "length signal < 2 ^ 64" and "\<forall>x\<in>set signal. x = c"
  shows "findPeaks t signal = Inr []"
proof -
  have "\<not> strict_peak t signal i" if "i \<in> set [1..<length signal - 1]" for i
  proof -
    have "i < length signal" "i - 1 < length signal"
      using that by auto
    then have "signal ! i \<in> set signal" "signal ! (i - 1) \<in> set signal"
      by (simp_all only: nth_mem)
    then have "signal ! i = c" "signal ! (i - 1) = c"
      using assms(3) by blast+
    then show ?thesis
      by (simp add: strict_peak_def dgt_irrefl)
  qed
  then have "filter (strict_peak t signal) [1..<length signal - 1] = []"
    by (simp only: filter_empty_conv) blast
  then show ?thesis
    using findPeaks_nonempty [OF assms(1,2), of t] by simp
qed

text \<open>A signal of one or two samples has no peak.\<close>

lemma findPeaks_short:
  assumes "signal \<noteq> []" and "length signal < 3"
  shows "findPeaks t signal = Inr []"
proof -
  have n: "length signal < 2 ^ 64"
    using assms(2) by (rule less_trans) simp
  have "length signal - 1 \<le> 1"
    using assms(2) by arith
  then have "[1..<length signal - 1] = []"
    by auto
  then show ?thesis
    using findPeaks_nonempty [OF assms(1) n, of t] by (simp only: filter.simps)
qed

lemma findPeaks_bump:
  "findPeaks (Fin (1 / 2)) [Fin 0, Fin 0, Fin 1, Fin 5, Fin 1, Fin 0, Fin 0] = Inr [3]"
proof -
  have "[1..<length [Fin 0, Fin 0, Fin 1, Fin 5, Fin 1, Fin 0, Fin 0] - 1] = [1, 2, 3, 4, 5]"
    by (simp add: upt_rec)
  then show ?thesis
    by (subst findPeaks_nonempty) (simp_all add: strict_peak_def)
qed

text \<open>
  Claim C2, at the empty signal. The claim gives the empty peak set there (no index
  satisfies \<open>1 \<le> i \<le> n - 2\<close>); the code computes \<^verbatim>\<open>signal.size() - 1\<close> in \<^verbatim>\<open>size_t\<close>, enters
  the loop with \<open>i = 1\<close> and reads \<^verbatim>\<open>signal[1]\<close>, so it returns no peak set at all.
\<close>

theorem findPeaks_empty_not_interior_peaks:
  "\<not> (\<exists>peaks. findPeaks t [] = Inr peaks \<and>
        set peaks = {i. 1 \<le> i \<and> i + 2 \<le> length ([] :: dbl list) \<and> strict_peak t [] i})"
  by (simp add: findPeaks_def findPeaks_loop.simps size_minus_1_Nil findPeaks_cond_def vec_at_def)

text \<open>
  Claim C3, at the empty signal: \<^verbatim>\<open>findPeaks\<close> reads outside the vector. (For one or two
  samples it returns the empty set, see \<open>findPeaks_short\<close>.)
\<close>

theorem findPeaks_empty_signal: "findPeaks t [] = Inl OutOfRange"
  by (simp add: findPeaks_def findPeaks_loop.simps size_minus_1_Nil findPeaks_cond_def vec_at_def)

section \<open>Parsing the samples\<close>

lemmas scan_defs = strtod_def scan_hex_def scan_decimal_def scan_mantissa_def scan_exponent_def
  scan_infinity_def scan_nan_def scan_word_def isspace_def digit_value_def hex_value_def
  tolower_def number_of_def scale_def is_nchar_def

lemma stod_dropped: "retained_sample u line = None \<Longrightarrow> \<exists>e. stod u line = Inl e"
  by (auto simp: stod_def retained_sample_def split: option.splits if_splits)

lemma stod_kept: "retained_sample u line = Some d \<Longrightarrow> stod u line = Inr d"
  by (auto simp: stod_def retained_sample_def split: option.splits if_splits)

lemma read_signal_eq:
  "read_signal u lines signal = signal @ List.map_filter (retained_sample u) lines"
proof (induction lines arbitrary: signal)
  case Nil
  show ?case by (simp add: map_filter_simps)
next
  case (Cons line lines)
  show ?case
  proof (cases "retained_sample u line")
    case None
    then obtain e where "stod u line = Inl e"
      using stod_dropped by blast
    with None Cons show ?thesis
      by (simp add: map_filter_simps)
  next
    case (Some d)
    then have "stod u line = Inr d"
      by (rule stod_kept)
    with Some Cons show ?thesis
      by (simp add: map_filter_simps)
  qed
qed

lemma digit_value_chars:
  assumes "digit_value c \<noteq> None"
  shows "\<not> isspace c" "c \<noteq> CHR ''-''" "c \<noteq> CHR ''+''" "c \<noteq> CHR ''.''" "c \<notin> set ''xX''"
    "c \<notin> set ''eE''"
  using assms by (auto simp: digit_value_def isspace_def split: if_splits)

lemma scan_digits_append:
  assumes "\<forall>c\<in>set ds. val c \<noteq> None" and "rest = [] \<or> val (hd rest) = None"
  shows "scan_digits val (ds @ rest) = (map (\<lambda>c. the (val c)) ds, rest)"
  using assms(1)
proof (induction ds)
  case Nil
  show ?case
    using assms(2) by (cases rest) auto
next
  case (Cons c ds)
  then show ?case by auto
qed

text \<open>
  The prefix rule on decimal numbers: a line that starts with digits, a point and
  further digits has the value of that number, whatever follows it (unless what
  follows continues the number: a digit or an exponent marker).
\<close>

lemma strtod_decimal_prefix:
  assumes ip: "ip \<noteq> []" "\<forall>c\<in>set ip. digit_value c \<noteq> None"
    and fp: "\<forall>c\<in>set fp. digit_value c \<noteq> None"
    and rest: "rest = [] \<or> (digit_value (hd rest) = None \<and> hd rest \<notin> set ''eE'')"
  shows "strtod (ip @ ''.'' @ fp @ rest) =
           Some (Fin (real (number_of 10 (map (\<lambda>c. the (digit_value c)) ip)) +
                      real (number_of 10 (map (\<lambda>c. the (digit_value c)) fp)) / 10 ^ length fp),
                 rest)"
proof -
  obtain c0 ip' where ip_eq: "ip = c0 # ip'"
    using ip(1) by (cases ip) auto
  have c0: "digit_value c0 \<noteq> None"
    using ip(2) ip_eq by simp
  let ?s = "ip @ ''.'' @ fp @ rest"
  have sp: "dropWhile isspace ?s = ?s"
    using digit_value_chars(1) [OF c0] by (simp add: ip_eq)
  have sg: "scan_sign ?s = (False, ?s)"
    using digit_value_chars(2,3) [OF c0] by (simp add: ip_eq)
  have hx: "scan_hex ?s = None"
  proof (cases ip')
    case Nil
    then show ?thesis by (simp add: scan_hex_def ip_eq)
  next
    case (Cons c1 ip'')
    then have "digit_value c1 \<noteq> None"
      using ip(2) ip_eq by simp
    from digit_value_chars(5) [OF this] show ?thesis
      by (simp add: scan_hex_def ip_eq Cons)
  qed
  have d1: "scan_digits digit_value (ip @ (''.'' @ fp @ rest)) =
              (map (\<lambda>c. the (digit_value c)) ip, ''.'' @ fp @ rest)"
    using ip(2) by (intro scan_digits_append) (simp_all add: digit_value_def)
  have d2: "scan_digits digit_value (fp @ rest) = (map (\<lambda>c. the (digit_value c)) fp, rest)"
    using fp rest by (intro scan_digits_append) auto
  have m: "scan_mantissa 10 digit_value ?s =
             Some (real (number_of 10 (map (\<lambda>c. the (digit_value c)) ip)) +
                   real (number_of 10 (map (\<lambda>c. the (digit_value c)) fp)) / 10 ^ length fp, rest)"
    using d1 d2 ip(1) by (simp add: scan_mantissa_def)
  have e: "scan_exponent ''eE'' rest = None"
    using rest by (cases rest) (auto simp: scan_exponent_def)
  have "scan_decimal ?s =
          Some (real (number_of 10 (map (\<lambda>c. the (digit_value c)) ip)) +
                real (number_of 10 (map (\<lambda>c. the (digit_value c)) fp)) / 10 ^ length fp, rest)"
    using m e by (simp add: scan_decimal_def)
  then show ?thesis
    using sp sg hx by (simp add: strtod_def)
qed

lemma round_double_three_halves: "round_double (3 / 2) = Fin (3 / 2)"
  using round_double_dyadic [of 3 1] by simp

lemma stod_two_columns: "stod u ''1.5,2.0'' = Inr (Fin (3 / 2))"
  by (simp add: stod_def erange_def scan_defs round_double_three_halves)

lemma stod_trailing_letters: "stod u ''2.0abc'' = Inr (Fin 2)"
  by (simp add: stod_def erange_def scan_defs round_double_simps)

text \<open>A decimal number that is not a double is kept with the value of the double
  nearest to it.\<close>

lemma stod_seven_tenths: "stod u ''0.7'' = Inr (Fin (3152519739159347 / 2 ^ 52))"
  using seven_tenths_is_double by (simp add: stod_def erange_def scan_defs)

lemma stod_no_number: "stod u ''abc'' = Inl InvalidArgument"
  by (simp add: stod_def scan_defs)

lemma stod_overflow: "stod u ''1e309'' = Inl OutOfRangeValue"
  by (simp add: stod_def erange_def scan_defs)

text \<open>
  Claim C10, as amended. The parsing loop keeps, in order, exactly the lines in which
  \<^verbatim>\<open>strtod\<close> finds a numeric prefix without reporting \<^verbatim>\<open>ERANGE\<close>, each with the value of
  that prefix (as a double); a line without a numeric prefix is dropped, and so is a line whose
  numeric prefix is out of the range of a double. What follows the prefix is ignored:
  a line that starts with digits, a point and further digits has the value of that
  decimal number whenever the next character does not continue the number.
\<close>

theorem read_signal_numeric_prefix:
  "read_signal u lines [] = List.map_filter (retained_sample u) lines \<and>
   (\<forall>ip fp rest.
      ip \<noteq> [] \<and> (\<forall>c\<in>set ip. digit_value c \<noteq> None) \<and> (\<forall>c\<in>set fp. digit_value c \<noteq> None) \<and>
      (rest = [] \<or> (digit_value (hd rest) = None \<and> hd rest \<notin> set ''eE'')) \<longrightarrow>
      strtod (ip @ ''.'' @ fp @ rest) = Some (Fin (decimal_value ip fp), rest))"
proof (intro conjI allI impI)
  show "read_signal u lines [] = List.map_filter (retained_sample u) lines"
    by (simp add: read_signal_eq)
next
  fix ip fp rest
  assume "ip \<noteq> [] \<and> (\<forall>c\<in>set ip. digit_value c \<noteq> None) \<and> (\<forall>c\<in>set fp. digit_value c \<noteq> None) \<and>
          (rest = [] \<or> (digit_value (hd rest) = None \<and> hd rest \<notin> set ''eE''))"
  then show "strtod (ip @ ''.'' @ fp @ rest) = Some (Fin (decimal_value ip fp), rest)"
    unfolding decimal_value_def by (intro strtod_decimal_prefix) blast+
qed

theorem read_signal_numeric_prefix_witness:
  "read_signal (\<lambda>v. True) [''1.5,2.0'', ''abc'', ''2.0abc'', ''1e309''] [] = [Fin (3 / 2), Fin 2] \<and>
   strtod (''1'' @ ''.'' @ ''5'' @ '',2.0'') = Some (Fin (decimal_value ''1'' ''5''), '',2.0'') \<and>
   decimal_value ''1'' ''5'' = 3 / 2"
proof -
  note inst = read_signal_numeric_prefix
    [of "\<lambda>v. True" "[''1.5,2.0'', ''abc'', ''2.0abc'', ''1e309'']"]
  have "List.map_filter (retained_sample (\<lambda>v. True)) [''1.5,2.0'', ''abc'', ''2.0abc'', ''1e309'']
          = [Fin (3 / 2), Fin 2]"
    by (simp add: map_filter_simps retained_sample_def erange_def scan_defs
        round_double_three_halves round_double_simps)
  then have loop: "read_signal (\<lambda>v. True) [''1.5,2.0'', ''abc'', ''2.0abc'', ''1e309''] [] =
                     [Fin (3 / 2), Fin 2]"
    using inst by simp
  have hyp: "''1'' \<noteq> [] \<and> (\<forall>c\<in>set ''1''. digit_value c \<noteq> None) \<and>
             (\<forall>c\<in>set ''5''. digit_value c \<noteq> None) \<and>
             ('',2.0'' = [] \<or> (digit_value (hd '',2.0'') = None \<and> hd '',2.0'' \<notin> set ''eE''))"
    by (simp add: digit_value_def)
  from inst have "strtod (''1'' @ ''.'' @ ''5'' @ '',2.0'') =
                   Some (Fin (decimal_value ''1'' ''5''), '',2.0'')"
    using hyp by blast
  moreover have "decimal_value ''1'' ''5'' = 3 / 2"
    by (simp add: decimal_value_def number_of_def digit_value_def)
  ultimately show ?thesis
    using loop by blast
qed

theorem read_signal_out_of_range_counterexample:
  "strtod ''1e309'' = Some (Fin (10 ^ 309), '''') \<and> read_signal (\<lambda>v. True) [''1e309''] [] = []"
  by (simp add: stod_def erange_def scan_defs)

section \<open>Processing one signal file\<close>

lemma write_rows_eq:
  "length filtered = length signal \<Longrightarrow> i \<le> length signal \<Longrightarrow>
   write_rows fmt signal filtered peaks i outfile =
     Inr (outfile @ map (output_row fmt signal filtered peaks) [i..<length signal])"
proof (induction fmt signal filtered peaks i outfile rule: write_rows.induct)
  case (1 fmt signal filtered peaks i outfile)
  show ?case
  proof (cases "i < length signal")
    case False
    with "1.prems" show ?thesis
      by (subst write_rows.simps) simp
  next
    case True
    have a: "vec_at signal i = Inr (signal ! i)"
      using True by (simp add: vec_at_def)
    have b: "vec_at filtered i = Inr (filtered ! i)"
      using True "1.prems"(1) by (simp add: vec_at_def)
    let ?row = "fmt (signal ! i) @ '','' @ fmt (filtered ! i) @ '','' @
                (if i \<in> set peaks then ''1'' else ''0'')"
    have "write_rows fmt signal filtered peaks (i + 1) (outfile @ [?row]) =
            Inr ((outfile @ [?row]) @
                 map (output_row fmt signal filtered peaks) [i + 1..<length signal])"
      using "1.prems" True by (intro "1.IH" [OF True a b]) simp_all
    moreover have "[i..<length signal] = i # [i + 1..<length signal]"
      using True by (simp add: upt_conv_Cons)
    moreover have "output_row fmt signal filtered peaks i = ?row"
      by (simp add: output_row_def)
    ultimately show ?thesis
      using True a b by (subst write_rows.simps) simp
  qed
qed

lemma movingAverage_Nil: "movingAverage w [] = Inr []"
  by (simp add: movingAverage_def movingAverage_loop.simps)

text \<open>
  With at least one numeric line after the header, \<^verbatim>\<open>processSignal\<close> writes the header
  line and one row per line, and row \<open>k\<close> starts with the value of line \<open>k\<close>.
\<close>

lemma processSignal_rows:
  assumes numeric: "\<forall>l\<in>set lines. retained_sample u l \<noteq> None"
    and nonempty: "lines \<noteq> []"
    and w: "int (length lines) + \<bar>window_size sp sdiv 2\<bar> < 2 ^ 31"
  shows "\<exists>rows. processSignal u fmt sp file_path (Some (header # lines)) True =
           Inr (Written (signal_output_dir sp @ ''/processed_'' @ filename file_path)
                  (''original,filtered,is_peak'' # rows)) \<and>
           length rows = length lines \<and>
           (\<forall>k<length lines. \<exists>rest.
              rows ! k = fmt (the (retained_sample u (lines ! k))) @ '','' @ rest)"
proof -
  let ?signal = "map (\<lambda>l. the (retained_sample u l)) lines"
  have "List.map_filter (retained_sample u) lines = ?signal"
    using numeric by (induction lines) (auto simp: map_filter_simps)
  then have rd: "read_signal u lines [] = ?signal"
    by (simp add: read_signal_eq)
  have len: "length ?signal = length lines"
    by simp
  let ?filtered = "map (clipped_mean (window_size sp) ?signal) [0..<length ?signal]"
  have ma: "movingAverage (window_size sp) ?signal = Inr ?filtered"
    using w by (intro movingAverage_eq) simp_all
  have ne: "?filtered \<noteq> []"
    using nonempty by simp
  have "int (length lines) < int (2 ^ 31)"
    using w by simp
  then have "length lines < 2 ^ 31"
    by (simp only: of_nat_less_iff)
  then have "length lines < 2 ^ 64"
    by (rule less_trans) simp
  then have n64: "length ?filtered < 2 ^ 64"
    by simp
  obtain peaks where fp: "findPeaks (threshold sp) ?filtered = Inr peaks"
    using findPeaks_nonempty [OF ne n64] by blast
  let ?rows = "map (output_row fmt ?signal ?filtered peaks) [0..<length ?signal]"
  have wr: "write_rows fmt ?signal ?filtered peaks 0 [''original,filtered,is_peak''] =
              Inr ([''original,filtered,is_peak''] @ ?rows)"
    by (intro write_rows_eq) simp_all
  have "processSignal u fmt sp file_path (Some (header # lines)) True =
          Inr (Written (signal_output_dir sp @ ''/processed_'' @ filename file_path)
                 (''original,filtered,is_peak'' # ?rows))"
    using rd ma fp wr by (simp add: processSignal_def Let_def)
  moreover have "length ?rows = length lines"
    by simp
  moreover have "\<exists>rest. ?rows ! k = fmt (the (retained_sample u (lines ! k))) @ '','' @ rest"
    if "k < length lines" for k
    using that by (simp add: output_row_def)
  ultimately show ?thesis
    by blast
qed

text \<open>
  Claim C4, at a file that holds a header line and no data line (\<open>N = 0\<close>). The claim
  gives an output file with the header line and no row; the code calls \<^verbatim>\<open>findPeaks\<close>
  on the empty filtered signal, which reads outside the vector, before it opens the
  output file.
\<close>

theorem processSignal_header_only:
  "processSignal u fmt sp file_path (Some [header]) True = Inl OutOfRange"
  by (simp add: processSignal_def Let_def movingAverage_Nil findPeaks_def findPeaks_loop.simps
      size_minus_1_Nil findPeaks_cond_def vec_at_def)

section \<open>File enumeration\<close>

lemma loadImagePaths_loop_eq:
  "loadImagePaths_loop found paths =
     paths @ map fst (filter (\<lambda>(p, t). t = Regular \<and> map tolower (extension p) \<in> set extensions)
                       found)"
  by (induction found paths rule: loadImagePaths_loop.induct) (simp_all add: Let_def)

lemma loadSignalFiles_loop_eq:
  "loadSignalFiles_loop found files =
     files @ map fst (filter (\<lambda>(p, t). t = Regular \<and> extension p = ''.csv'') found)"
  by (induction found files rule: loadSignalFiles_loop.induct) simp_all

text \<open>
  The image pipeline returns the regular files that the iterator finds below the root
  and whose extension matches the allow-set whatever its case, each once when the
  iterator lists each path once.
\<close>

lemma loadImagePaths_set:
  assumes "recursive_directory_iterator fs input_dir = Inr found"
  shows "\<exists>paths. loadImagePaths fs input_dir = Inr paths \<and>
           set paths = {p. (p, Regular) \<in> set found \<and>
                           map tolower (extension p) \<in> set extensions}"
  using assms by (force simp: loadImagePaths_def loadImagePaths_loop_eq)

lemma loadImagePaths_distinct:
  assumes "recursive_directory_iterator fs input_dir = Inr found" and "distinct (map fst found)"
    and "loadImagePaths fs input_dir = Inr paths"
  shows "distinct paths"
proof -
  have "distinct (map fst (filter P found))" for P
    using assms(2) by (rule distinct_map_filter)
  then show ?thesis
    using assms(1,3) by (auto simp: loadImagePaths_def loadImagePaths_loop_eq)
qed

text \<open>The signal pipeline returns the regular files below the root whose extension
  is \<^verbatim>\<open>.csv\<close> in lower case.\<close>

lemma loadSignalFiles_set:
  assumes "recursive_directory_iterator fs input_dir = Inr found"
  shows "\<exists>files. loadSignalFiles fs input_dir = Inr files \<and>
           set files = {p. (p, Regular) \<in> set found \<and> extension p = ''.csv''}"
  using assms by (force simp: loadSignalFiles_def loadSignalFiles_loop_eq)

lemmas path_defs = resolve_def start_of_def components_def status_def status_at_def
  exists_path_def is_below_def entry_path_def path_append_def

text \<open>The entries below a directory keep the spelling of the root they were asked
  for.\<close>

lemma recursive_directory_iterator_example:
  "recursive_directory_iterator
     \<lparr>cwd = [], entries = [([''in''], Directory), ([''in'', ''sub''], Directory),
                           ([''in'', ''sub'', ''a.png''], Regular), ([''out''], Directory)]\<rparr>
     ''./in/'' =
   Inr [(''./in/sub'', Directory), (''./in/sub/a.png'', Regular)]"
  by (simp add: recursive_directory_iterator_def path_defs)

text \<open>
  Claim C7, at a directory \<^verbatim>\<open>in\<close> that holds the regular file \<^verbatim>\<open>DATA.CSV\<close>: its extension
  matches \<^verbatim>\<open>.csv\<close> case-insensitively, and the signal pipeline leaves it out, while the
  image pipeline keeps \<^verbatim>\<open>PHOTO.JPG\<close>.
\<close>

theorem loadSignalFiles_upper_case_excluded:
  "loadSignalFiles
     \<lparr>cwd = [], entries = [([''in''], Directory), ([''in'', ''DATA.CSV''], Regular)]\<rparr> ''in'' =
     Inr [] \<and>
   recursive_directory_iterator
     \<lparr>cwd = [], entries = [([''in''], Directory), ([''in'', ''DATA.CSV''], Regular)]\<rparr> ''in'' =
     Inr [(''in/DATA.CSV'', Regular)] \<and>
   map tolower (extension ''in/DATA.CSV'') = ''.csv'' \<and>
   loadImagePaths
     \<lparr>cwd = [], entries = [([''in''], Directory), ([''in'', ''PHOTO.JPG''], Regular)]\<rparr> ''in'' =
     Inr [''in/PHOTO.JPG'']"
  by (simp add: loadSignalFiles_def loadImagePaths_def recursive_directory_iterator_def
      path_defs extension_def filename_def tolower_def extensions_def)

section \<open>Construction\<close>

lemma make_directories_error: "make_directories fs cur cs = Inl e \<Longrightarrow> e = FilesystemError"
  by (induction cs arbitrary: fs cur) (auto split: if_splits option.splits file_type.splits)

lemma ensure_directory_error: "ensure_directory dir fs = Inl e \<Longrightarrow> e = FilesystemError"
  by (auto simp: ensure_directory_def create_directories_def split: if_splits
      dest: make_directories_error)

lemma recursive_directory_iterator_missing:
  "\<not> exists_path fs dir \<Longrightarrow> recursive_directory_iterator fs dir = Inl FilesystemError"
  by (auto simp: recursive_directory_iterator_def exists_path_def status_def split: option.splits)

text \<open>
  The constructors scan the input root in the file system that the creation of the
  output directory leaves behind: they fail when that creation fails, and when the
  input root does not exist after it.
\<close>

lemma construction_fails:
  assumes "\<And>fs'. ensure_directory out fs = Inr fs' \<Longrightarrow> \<not> exists_path fs' input_dir"
  shows "ImageProcessor fs input_dir out v = Inl FilesystemError"
    and "SignalProcessor fs input_dir out v = Inl FilesystemError"
proof -
  show "ImageProcessor fs input_dir out v = Inl FilesystemError"
  proof (cases "ensure_directory out fs")
    case (Inl e)
    then show ?thesis
      using ensure_directory_error [OF Inl] by (simp add: ImageProcessor_def)
  next
    case (Inr fs')
    then show ?thesis
      using recursive_directory_iterator_missing [OF assms [OF Inr]]
      by (simp add: ImageProcessor_def loadImagePaths_def)
  qed
  show "SignalProcessor fs input_dir out v = Inl FilesystemError"
  proof (cases "ensure_directory out fs")
    case (Inl e)
    then show ?thesis
      using ensure_directory_error [OF Inl] by (simp add: SignalProcessor_def)
  next
    case (Inr fs')
    then show ?thesis
      using recursive_directory_iterator_missing [OF assms [OF Inr]]
      by (simp add: SignalProcessor_def loadSignalFiles_def)
  qed
qed

text \<open>
  Claim C8, as amended. When the input root does not exist, and still does not exist
  once the constructor has created the output directory with its missing ancestors,
  both constructors end with a file system error: no object, and so no corpus, is
  returned.
\<close>

theorem construction_fails_without_input_root:
  assumes "\<not> exists_path fs input_dir"
    and "\<forall>fs'. ensure_directory out fs = Inr fs' \<longrightarrow> \<not> exists_path fs' input_dir"
  shows "ImageProcessor fs input_dir out v = Inl FilesystemError \<and>
         SignalProcessor fs input_dir out v = Inl FilesystemError"
  using assms(2) by (intro conjI construction_fails) blast+

lemmas construction_defs = ImageProcessor_def SignalProcessor_def ensure_directory_def
  create_directories_def loadImagePaths_def loadSignalFiles_def recursive_directory_iterator_def
  path_defs

text \<open>The defaults of the program, \<^verbatim>\<open>./input\<close> and \<^verbatim>\<open>./output\<close>, in an empty working
  directory.\<close>

theorem construction_fails_without_input_root_witness:
  "\<not> exists_path \<lparr>cwd = [], entries = []\<rparr> ''./input'' \<and>
   ensure_directory ''./output'' \<lparr>cwd = [], entries = []\<rparr> =
     Inr \<lparr>cwd = [], entries = [([''output''], Directory)]\<rparr> \<and>
   \<not> exists_path \<lparr>cwd = [], entries = [([''output''], Directory)]\<rparr> ''./input'' \<and>
   ImageProcessor \<lparr>cwd = [], entries = []\<rparr> ''./input'' ''./output'' False =
     Inl FilesystemError \<and>
   SignalProcessor \<lparr>cwd = [], entries = []\<rparr> ''./input'' ''./output'' False =
     Inl FilesystemError"
proof -
  let ?fs = "\<lparr>cwd = [], entries = []\<rparr>"
  have a: "\<not> exists_path ?fs ''./input''"
    by (simp add: path_defs)
  have e: "ensure_directory ''./output'' ?fs = Inr \<lparr>cwd = [], entries = [([''output''], Directory)]\<rparr>"
    by (simp add: ensure_directory_def create_directories_def path_defs)
  have c: "\<not> exists_path \<lparr>cwd = [], entries = [([''output''], Directory)]\<rparr> ''./input''"
    by (simp add: path_defs)
  have b: "\<forall>fs'. ensure_directory ''./output'' ?fs = Inr fs' \<longrightarrow> \<not> exists_path fs' ''./input''"
    using e c by simp
  show ?thesis
    using a e c construction_fails_without_input_root [OF a b, of False] by blast
qed

theorem construction_succeeds_counterexample:
  "\<not> exists_path \<lparr>cwd = [], entries = []\<rparr> ''data'' \<and>
   ImageProcessor \<lparr>cwd = [], entries = []\<rparr> ''data'' ''data/out'' False =
     Inr (\<lparr>cwd = [], entries = [([''data''], Directory), ([''data'', ''out''], Directory)]\<rparr>,
      \<lparr>image_paths = [], output_dir = ''data/out'', verbose = False, blur_size = 5,
           contrast_alpha = Fin (3 / 2), contrast_beta = 10, apply_edge_detection = True\<rparr>)"
  by (simp add: construction_defs)

text \<open>The same with other spellings of the input root, and with an output directory
  given by the empty path, which cannot be created.\<close>

lemma construction_succeeds_dot_slash:
  "\<not> exists_path \<lparr>cwd = [], entries = []\<rparr> ''./data'' \<and>
   \<not> exists_path \<lparr>cwd = [], entries = []\<rparr> ''data/'' \<and>
   ImageProcessor \<lparr>cwd = [], entries = []\<rparr> ''./data'' ''data/out'' False =
     Inr (\<lparr>cwd = [], entries = [([''data''], Directory), ([''data'', ''out''], Directory)]\<rparr>,
      \<lparr>image_paths = [], output_dir = ''data/out'', verbose = False, blur_size = 5,
           contrast_alpha = Fin (3 / 2), contrast_beta = 10, apply_edge_detection = True\<rparr>) \<and>
   SignalProcessor \<lparr>cwd = [], entries = []\<rparr> ''data/'' ''data//out/'' False =
     Inr (\<lparr>cwd = [], entries = [([''data''], Directory), ([''data'', ''out''], Directory)]\<rparr>,
      \<lparr>signal_files = [], signal_output_dir = ''data//out/'', signal_verbose = False,
           window_size = 10, threshold = Fin (1 / 2)\<rparr>)"
  by (simp add: construction_defs)

lemma construction_empty_output_path:
  "ImageProcessor fs input_dir [] v = Inl FilesystemError"
  by (simp add: ImageProcessor_def ensure_directory_def create_directories_def path_defs)

subsection \<open>Input roots that the constructor does not create\<close>

lemma walk_lexical:
  "walk fs cur cs = Some loc \<Longrightarrow> ''..'' \<notin> set cs \<Longrightarrow>
   loc = cur @ filter (\<lambda>c. c \<noteq> [] \<and> c \<noteq> ''.'') cs"
proof (induction cs arbitrary: cur)
  case Nil
  then show ?case by simp
next
  case (Cons c cs)
  from Cons.prems(2) have nd: "''..'' \<notin> set cs" and c: "c \<noteq> ''..''"
    by auto
  from Cons.prems(1) have d: "status_at fs cur = Some Directory"
    by (auto split: if_splits)
  show ?case
  proof (cases "c = [] \<or> c = ''.''")
    case True
    with Cons.prems(1) d have "walk fs cur cs = Some loc"
      by auto
    from Cons.IH [OF this nd] True show ?thesis
      by auto
  next
    case False
    with Cons.prems(1) d c have "walk fs (cur @ [c]) cs = Some loc"
      by simp
    from Cons.IH [OF this nd] False show ?thesis
      by simp
  qed
qed

text \<open>\<^verbatim>\<open>fs::create_directories\<close> keeps what is there, and what it adds lies on the way to
  the directory it was asked for.\<close>

lemma make_directories_keeps:
  "make_directories fs cur cs = Inr fs' \<Longrightarrow>
   cwd fs' = cwd fs \<and> (\<forall>l t. map_of (entries fs) l = Some t \<longrightarrow> map_of (entries fs') l = Some t)"
proof (induction cs arbitrary: fs cur)
  case Nil
  then show ?case by simp
next
  case (Cons c cs)
  show ?case
  proof (cases "c = [] \<or> c = ''.'' \<or> c = ''..''")
    case True
    with Cons.prems show ?thesis
      by (auto split: if_splits dest!: Cons.IH)
  next
    case False
    from Cons.prems have d: "status_at fs cur = Some Directory"
      by (auto split: if_splits)
    show ?thesis
    proof (cases "status_at fs (cur @ [c])")
      case None
      let ?fs1 = "fs\<lparr>entries := entries fs @ [(cur @ [c], Directory)]\<rparr>"
      from Cons.prems False d None have "make_directories ?fs1 (cur @ [c]) cs = Inr fs'"
        by simp
      from Cons.IH [OF this]
      have "cwd fs' = cwd fs"
        and "\<forall>l t. map_of (entries ?fs1) l = Some t \<longrightarrow> map_of (entries fs') l = Some t"
        by simp_all
      moreover have "map_of (entries ?fs1) l = Some t" if "map_of (entries fs) l = Some t" for l t
        using that by (simp add: map_add_def)
      ultimately show ?thesis
        by blast
    next
      case (Some t)
      with Cons.prems False d have "make_directories fs (cur @ [c]) cs = Inr fs'"
        by (cases t) simp_all
      from Cons.IH [OF this] show ?thesis .
    qed
  qed
qed

lemma make_directories_new:
  "make_directories fs cur cs = Inr fs' \<Longrightarrow> ''..'' \<notin> set cs \<Longrightarrow>
   map_of (entries fs') l = Some t \<Longrightarrow> map_of (entries fs) l = None \<Longrightarrow>
   take (length l) (cur @ filter (\<lambda>c. c \<noteq> [] \<and> c \<noteq> ''.'') cs) = l"
proof (induction cs arbitrary: fs cur)
  case Nil
  then show ?case by simp
next
  case (Cons c cs)
  from Cons.prems(2) have nd: "''..'' \<notin> set cs" and c: "c \<noteq> ''..''"
    by auto
  from Cons.prems(1) have d: "status_at fs cur = Some Directory"
    by (auto split: if_splits)
  show ?case
  proof (cases "c = [] \<or> c = ''.''")
    case True
    with Cons.prems(1) d have "make_directories fs cur cs = Inr fs'"
      by auto
    from Cons.IH [OF this nd Cons.prems(3,4)] True show ?thesis
      by auto
  next
    case False
    let ?n = "filter (\<lambda>c. c \<noteq> [] \<and> c \<noteq> ''.'') cs"
    have f: "cur @ filter (\<lambda>c. c \<noteq> [] \<and> c \<noteq> ''.'') (c # cs) = (cur @ [c]) @ ?n"
      using False by simp
    show ?thesis
    proof (cases "status_at fs (cur @ [c])")
      case None
      let ?fs1 = "fs\<lparr>entries := entries fs @ [(cur @ [c], Directory)]\<rparr>"
      from Cons.prems(1) False c d None have md: "make_directories ?fs1 (cur @ [c]) cs = Inr fs'"
        by simp
      show ?thesis
      proof (cases "l = cur @ [c]")
        case True
        then show ?thesis
          by (simp only: f) simp
      next
        case ne: False
        then have "map_of (entries ?fs1) l = None"
          using Cons.prems(4) by (simp add: map_add_def)
        from Cons.IH [OF md nd Cons.prems(3) this] show ?thesis
          by (simp only: f)
      qed
    next
      case (Some t')
      with Cons.prems(1) False c d have "make_directories fs (cur @ [c]) cs = Inr fs'"
        by (cases t') simp_all
      from Cons.IH [OF this nd Cons.prems(3,4)] show ?thesis
        by (simp only: f)
    qed
  qed
qed

lemma well_formed_ancestors:
  "well_formed fs \<Longrightarrow> status_at fs l \<noteq> None \<Longrightarrow> k < length l \<Longrightarrow>
   status_at fs (take k l) = Some Directory"
proof (induction l arbitrary: k rule: rev_induct)
  case Nil
  then show ?case by simp
next
  case (snoc x xs)
  from snoc.prems(2) obtain t where "map_of (entries fs) (xs @ [x]) = Some t"
    by (auto simp: status_at_def)
  with snoc.prems(1) have xs: "status_at fs xs = Some Directory"
    unfolding well_formed_def by (metis butlast_snoc)
  show ?case
  proof (cases "k < length xs")
    case True
    then show ?thesis
      using snoc.IH [OF snoc.prems(1) _ True] xs by simp
  next
    case False
    with snoc.prems(3) have "k = length xs"
      by simp
    with xs show ?thesis
      by simp
  qed
qed

lemma walk_transfer:
  "walk fs' cur cs = Some L \<Longrightarrow> ''..'' \<notin> set cs \<Longrightarrow>
   (\<And>k. k \<le> length L \<Longrightarrow> status_at fs' (take k L) = Some Directory \<Longrightarrow>
      status_at fs (take k L) = Some Directory) \<Longrightarrow>
   walk fs cur cs = Some L"
proof (induction cs arbitrary: cur)
  case Nil
  then show ?case by simp
next
  case (Cons c cs)
  from Cons.prems(1) have d: "status_at fs' cur = Some Directory"
    by (auto split: if_splits)
  from walk_lexical [OF Cons.prems(1,2)] have "take (length cur) L = cur" "length cur \<le> length L"
    by simp_all
  with Cons.prems(3) [of "length cur"] d have d': "status_at fs cur = Some Directory"
    by simp
  from Cons.prems(2) have nd: "''..'' \<notin> set cs" and c: "c \<noteq> ''..''"
    by auto
  show ?case
  proof (cases "c = [] \<or> c = ''.''")
    case True
    with Cons.prems(1) d have "walk fs' cur cs = Some L"
      by auto
    from Cons.IH [OF this nd Cons.prems(3)] True d' show ?thesis
      by auto
  next
    case False
    with Cons.prems(1) d c have "walk fs' (cur @ [c]) cs = Some L"
      by simp
    from Cons.IH [OF this nd Cons.prems(3)] False d' c show ?thesis
      by simp
  qed
qed

text \<open>
  In a well-formed file system, for paths without \<^verbatim>\<open>..\<close>: an input root that does not
  exist, and whose location is neither the location of the output directory nor above
  it, still does not exist after the creation of the output directory.
\<close>

lemma input_root_stays_missing:
  assumes wf: "well_formed fs"
    and nd: "''..'' \<notin> set (components input_dir)" "''..'' \<notin> set (components out)"
    and missing: "\<not> exists_path fs input_dir"
    and ens: "ensure_directory out fs = Inr fs'"
    and other: "lexical_location fs input_dir \<noteq> lexical_location fs out"
      "\<not> is_below (lexical_location fs input_dir) (lexical_location fs out)"
  shows "\<not> exists_path fs' input_dir"
proof (cases "exists_path fs out")
  case True
  with ens missing show ?thesis
    by (simp add: ensure_directory_def)
next
  case False
  with ens have ne: "out \<noteq> []"
    and md: "make_directories fs (start_of fs out) (components out) = Inr fs'"
    by (auto simp: ensure_directory_def create_directories_def split: if_splits)
  note keeps = make_directories_keeps [OF md]
  have start: "start_of fs' input_dir = start_of fs input_dir"
    using keeps by (simp add: start_of_def)
  show ?thesis
  proof
    assume ex: "exists_path fs' input_dir"
    then obtain L where ne_in: "input_dir \<noteq> []"
      and w': "walk fs' (start_of fs input_dir) (components input_dir) = Some L"
      and st': "status_at fs' L \<noteq> None"
      by (auto simp: exists_path_def status_def resolve_def start split: option.splits if_splits)
    have L: "L = lexical_location fs input_dir"
      using walk_lexical [OF w' nd(1)] by (simp add: lexical_location_def names_def)
    have same: "status_at fs L = status_at fs' L"
    proof (cases "L = []")
      case True
      then show ?thesis by (simp add: status_at_def)
    next
      case nonroot: False
      from st' nonroot obtain t where t: "map_of (entries fs') L = Some t"
        by (auto simp: status_at_def)
      show ?thesis
      proof (cases "map_of (entries fs) L")
        case None
        from make_directories_new [OF md nd(2) t None]
        have "take (length L) (lexical_location fs out) = L"
          by (simp add: lexical_location_def names_def)
        with other L show ?thesis
          by (metis is_below_def le_neq_implies_less length_take min.cobounded1 take_all_iff)
      next
        case (Some t0)
        with keeps have "map_of (entries fs') L = Some t0"
          by blast
        with Some nonroot show ?thesis
          by (simp add: status_at_def)
      qed
    qed
    have ex_fs: "status_at fs L \<noteq> None"
      using same st' by simp
    have "walk fs (start_of fs input_dir) (components input_dir) = Some L"
    proof (rule walk_transfer [OF w' nd(1)])
      fix k
      assume k: "k \<le> length L" and "status_at fs' (take k L) = Some Directory"
      show "status_at fs (take k L) = Some Directory"
      proof (cases "k < length L")
        case True
        then show ?thesis
          using well_formed_ancestors [OF wf ex_fs] by simp
      next
        case False
        with k have "take k L = L"
          by simp
        with \<open>status_at fs' (take k L) = Some Directory\<close> same show ?thesis
          by simp
      qed
    qed
    with ne_in ex_fs have "exists_path fs input_dir"
      by (simp add: exists_path_def status_def resolve_def)
    with missing show False
      by simp
  qed
qed

lemma construction_fails_not_ancestor:
  assumes "well_formed fs"
    and "''..'' \<notin> set (components input_dir)" "''..'' \<notin> set (components out)"
    and "\<not> exists_path fs input_dir"
    and "lexical_location fs input_dir \<noteq> lexical_location fs out"
      "\<not> is_below (lexical_location fs input_dir) (lexical_location fs out)"
  shows "ImageProcessor fs input_dir out v = Inl FilesystemError \<and>
         SignalProcessor fs input_dir out v = Inl FilesystemError"
  using input_root_stays_missing [OF assms(1-4) _ assms(5,6)]
  by (intro conjI construction_fails) blast+

text \<open>The input \<^verbatim>\<open>./data\<close> denotes the location above that of the output \<^verbatim>\<open>data/out\<close>.\<close>

lemma lexical_location_example:
  "lexical_location \<lparr>cwd = [], entries = []\<rparr> ''./data'' = [''data'']"
  "lexical_location \<lparr>cwd = [], entries = []\<rparr> ''data/out'' = [''data'', ''out'']"
  "is_below [''data''] [''data'', ''out'']"
  by (simp_all add: lexical_location_def names_def path_defs)

section \<open>The corpus analyzer\<close>

lemma Min_Cons_min: "Min (set (min a x # xs)) = Min (set (a # x # xs))"
  for a :: int
  by (cases "set xs = {}") (simp_all add: min.assoc)

lemma Max_Cons_max: "Max (set (max a x # xs)) = Max (set (a # x # xs))"
  for a :: int
  by (cases "set xs = {}") (simp_all add: max.assoc)

lemma analyzeImages_loop_eq:
  "t < 2 ^ 64 \<Longrightarrow>
   analyzeImages_loop (\<lambda>path. Inr (sz path)) dims paths (t, a, b, c, d) =
     Inr ((t + sum_list (map sz paths)) mod 2 ^ 64,
          Min (set (a # map fst (List.map_filter dims paths))),
          Max (set (b # map fst (List.map_filter dims paths))),
          Min (set (c # map snd (List.map_filter dims paths))),
          Max (set (d # map snd (List.map_filter dims paths))))"
proof (induction paths arbitrary: t a b c d)
  case Nil
  then show ?case by (simp add: map_filter_simps)
next
  case (Cons path paths)
  have lt: "(t + sz path) mod 2 ^ 64 < (2 ^ 64 :: nat)"
    by simp
  have m: "((t + sz path) mod 2 ^ 64 + sum_list (map sz paths)) mod 2 ^ 64 =
           (t + sum_list (map sz (path # paths))) mod 2 ^ 64"
    by (simp add: mod_add_left_eq add.assoc)
  show ?case
  proof (cases "dims path")
    case None
    then show ?thesis
      using Cons.IH [OF lt, of a b c d] m by (simp add: map_filter_simps)
  next
    case (Some wh)
    obtain cols rows where wh: "wh = (cols, rows)"
      by (cases wh)
    show ?thesis
      using Cons.IH [OF lt, of "min a cols" "max b cols" "min c rows" "max d rows"] m Some wh
      by (simp add: map_filter_simps Min_Cons_min Max_Cons_max del: set_simps)
  qed
qed


text \<open>
  Claim C6, as amended. For a corpus without any path the analyzer reports "no images"
  and computes nothing else. For every other corpus, also one in which no file
  decodes, it reports the statistics: the number of paths, which is not zero and is
  the divisor of the average, the byte sizes of all files, decodable or not, and the
  extrema over the decodable files only. No division by zero occurs.
\<close>

theorem analyzeImages_report:
  "analyzeImages (\<lambda>path. Inr (sz path)) dims p =
     (if image_paths p = [] then Inr NoImagesToAnalyze
      else Inr (ImageAnalysis (corpus_statistics sz dims (image_paths p))))"
proof (cases "image_paths p = []")
  case True
  then show ?thesis
    by (simp add: analyzeImages_def)
next
  case False
  have "analyzeImages_loop (\<lambda>path. Inr (sz path)) dims (image_paths p) (0, INT_MAX, 0, INT_MAX, 0) =
     Inr ((0 + sum_list (map sz (image_paths p))) mod 2 ^ 64,
          Min (set (INT_MAX # map fst (List.map_filter dims (image_paths p)))),
          Max (set (0 # map fst (List.map_filter dims (image_paths p)))),
          Min (set (INT_MAX # map snd (List.map_filter dims (image_paths p)))),
          Max (set (0 # map snd (List.map_filter dims (image_paths p)))))"
    by (rule analyzeImages_loop_eq) simp
  then show ?thesis
    using False by (simp add: analyzeImages_def corpus_statistics_def Let_def del: set_simps)
qed

text \<open>The divisor of the average is not zero: for a corpus that is not empty it is
  \<open>1024\<close> times the number of paths.\<close>

lemma analyzeImages_divisor:
  assumes "n < 2 ^ 43"
  shows "dmul (Fin 1024) (double_of_size_t n) = Fin (1024 * real n)"
proof -
  have "n < 2 ^ 53"
    using assms by (rule less_trans) simp
  then have n: "double_of_size_t n = Fin (real n)"
    by (simp add: double_of_size_t_def round_double_nat)
  have "1024 * n < 2 ^ 53"
    using assms by simp
  then have "round_double (real (1024 * n)) = Fin (real (1024 * n))"
    by (rule round_double_nat)
  then show ?thesis
    by (simp add: n)
qed

theorem analyzeImages_report_witness:
  "analyzeImages (\<lambda>path. Inr (if path = ''in/a.png'' then 2048 else 1024))
     (\<lambda>path. if path = ''in/a.png'' then Some (640, 480) else None)
     \<lparr>image_paths = [''in/a.png'', ''in/bad.jpg''], output_dir = ''out'', verbose = False,
      blur_size = 5, contrast_alpha = Fin (3 / 2), contrast_beta = 10,
      apply_edge_detection = True\<rparr> =
   Inr (ImageAnalysis
     \<lparr>number_of_images = 2, total_size = 3072, total_mb = Fin (3072 / (1024 * 1024)),
      average_kb = Fin (3 / 2), min_width = 640, max_width = 640,
      min_height = 480, max_height = 480\<rparr>)"
proof -
  have "corpus_statistics (\<lambda>path. if path = ''in/a.png'' then 2048 else 1024)
          (\<lambda>path. if path = ''in/a.png'' then Some (640, 480) else None)
          [''in/a.png'', ''in/bad.jpg''] =
        \<lparr>number_of_images = 2, total_size = 3072, total_mb = Fin (3072 / (1024 * 1024)),
         average_kb = Fin (3 / 2), min_width = 640, max_width = 640,
         min_height = 480, max_height = 480\<rparr>"
    by (simp add: corpus_statistics_def map_filter_simps INT_MAX_def double_of_size_t_def
        round_double_simps round_double_three_halves round_double_dyadic [of 3 10, simplified])
  then show ?thesis
    using analyzeImages_report [of "\<lambda>path. if path = ''in/a.png'' then 2048 else 1024"
        "\<lambda>path. if path = ''in/a.png'' then Some (640, 480) else None"
        "\<lparr>image_paths = [''in/a.png'', ''in/bad.jpg''], output_dir = ''out'', verbose = False,
          blur_size = 5, contrast_alpha = Fin (3 / 2), contrast_beta = 10,
          apply_edge_detection = True\<rparr>"]
    by simp
qed

theorem analyzeImages_undecodable_counterexample:
  "analyzeImages (\<lambda>path. Inr 100) (\<lambda>path. None)
     \<lparr>image_paths = [''in/bad.jpg''], output_dir = ''out'', verbose = False, blur_size = 5,
      contrast_alpha = Fin (3 / 2), contrast_beta = 10, apply_edge_detection = True\<rparr> =
   Inr (ImageAnalysis
     \<lparr>number_of_images = 1, total_size = 100, total_mb = Fin (100 / (1024 * 1024)),
      average_kb = Fin (100 / 1024), min_width = 2147483647, max_width = 0,
      min_height = 2147483647, max_height = 0\<rparr>)"
  by (simp add: analyzeImages_def INT_MAX_def double_of_size_t_def round_double_simps
      round_double_dyadic [of 25 18, simplified] round_double_dyadic [of 25 8, simplified])

section \<open>The parameter sweep\<close>

declare to_string_nat.simps [simp del]

subsection \<open>Directory names\<close>

lemma digit_char_value: "n < 10 \<Longrightarrow> digit_value (digit_char n) = Some n"
proof -
  assume "n < 10"
  then have "n \<in> {0, 1, 2, 3, 4, 5, 6, 7, 8, 9}"
    by auto
  then show ?thesis
    by (auto simp: digit_char_def digit_value_def)
qed

lemma to_string_nat_digits: "c \<in> set (to_string_nat n) \<Longrightarrow> digit_value c \<noteq> None"
proof (induction n rule: to_string_nat.induct)
  case (1 n)
  show ?case
  proof (cases "n < 10")
    case True
    with "1.prems" show ?thesis
      by (subst (asm) to_string_nat.simps) (simp add: digit_char_value)
  next
    case False
    with "1.prems" have "c \<in> set (to_string_nat (n div 10)) \<or> c = digit_char (n mod 10)"
      by (subst (asm) to_string_nat.simps) auto
    then show ?thesis
      using "1.IH" [OF False] by (auto simp: digit_char_value)
  qed
qed

lemma number_of_snoc: "number_of b (ds @ [d]) = number_of b ds * b + d"
  by (simp add: number_of_def)

lemma number_of_to_string_nat:
  "number_of 10 (map (\<lambda>c. the (digit_value c)) (to_string_nat n)) = n"
proof (induction n rule: to_string_nat.induct)
  case (1 n)
  show ?case
  proof (cases "n < 10")
    case True
    then show ?thesis
      by (subst to_string_nat.simps) (simp add: digit_char_value number_of_def)
  next
    case False
    have "to_string_nat n = to_string_nat (n div 10) @ [digit_char (n mod 10)]"
      using False by (subst to_string_nat.simps) simp
    then have "number_of 10 (map (\<lambda>c. the (digit_value c)) (to_string_nat n)) =
                 number_of 10 (map (\<lambda>c. the (digit_value c)) (to_string_nat (n div 10))) * 10 +
                 the (digit_value (digit_char (n mod 10)))"
      by (simp only: map_append list.map number_of_snoc)
    also have "\<dots> = n div 10 * 10 + n mod 10"
      by (simp only: "1.IH" [OF False]) (simp add: digit_char_value)
    finally show ?thesis
      by simp
  qed
qed

lemma to_string_nat_inject: "to_string_nat m = to_string_nat n \<Longrightarrow> m = n"
  by (metis number_of_to_string_nat)

lemma split_at_first:
  assumes "x \<notin> set xs" and "x \<notin> set xs'" and "xs @ x # ys = xs' @ x # ys'"
  shows "xs = xs' \<and> ys = ys'"
proof -
  have "takeWhile (\<lambda>c. c \<noteq> x) (xs @ x # ys) = xs"
    using assms(1) by (auto simp: takeWhile_tail)
  moreover have "takeWhile (\<lambda>c. c \<noteq> x) (xs' @ x # ys') = xs'"
    using assms(2) by (auto simp: takeWhile_tail)
  ultimately have "xs = xs'"
    using assms(3) by simp
  with assms(3) show ?thesis
    by simp
qed

lemma to_string_nat_nonempty: "to_string_nat n \<noteq> []"
  by (subst to_string_nat.simps) simp

lemma to_string_nat_no_minus: "CHR ''-'' \<notin> set (to_string_nat n)"
  using to_string_nat_digits [of "CHR ''-''" n] by (auto simp: digit_value_def)

lemma to_string_inject: "to_string i = to_string j \<Longrightarrow> i = j"
proof -
  assume eq: "to_string i = to_string j"
  have hd_nat: "hd (to_string_nat n) \<noteq> CHR ''-''" for n
    using to_string_nat_no_minus [of n] to_string_nat_nonempty [of n]
    by (cases "to_string_nat n") auto
  show "i = j"
  proof (cases "i < 0")
    case i: True
    show ?thesis
    proof (cases "j < 0")
      case True
      with i eq have "nat (- i) = nat (- j)"
        by (auto simp: to_string_def dest: to_string_nat_inject)
      with i True show ?thesis by simp
    next
      case False
      with i eq have "CHR ''-'' # to_string_nat (nat (- i)) = to_string_nat (nat j)"
        by (simp add: to_string_def)
      then have "hd (to_string_nat (nat j)) = CHR ''-''"
        by (metis list.sel(1))
      with hd_nat show ?thesis by blast
    qed
  next
    case i: False
    show ?thesis
    proof (cases "j < 0")
      case True
      with i eq have "to_string_nat (nat i) = CHR ''-'' # to_string_nat (nat (- j))"
        by (simp add: to_string_def)
      then have "hd (to_string_nat (nat i)) = CHR ''-''"
        by (metis list.sel(1))
      with hd_nat show ?thesis by blast
    next
      case False
      with i eq have "nat i = nat j"
        by (auto simp: to_string_def dest: to_string_nat_inject)
      with i False show ?thesis by simp
    qed
  qed
qed

lemma to_string_no_underscore: "CHR ''_'' \<notin> set (to_string i)"
  using to_string_nat_digits [of "CHR ''_''"] by (auto simp: to_string_def digit_value_def)

text \<open>Two parameter combinations get the same subfolder exactly when they agree on the
  blur size and on the integer made from the contrast.\<close>

lemma param_dir_eq_iff: "param_dir out b k = param_dir out b' k' \<longleftrightarrow> b = b' \<and> k = k'"
proof
  assume "param_dir out b k = param_dir out b' k'"
  then have "to_string b @ CHR ''_'' # (''contrast'' @ to_string k) =
             to_string b' @ CHR ''_'' # (''contrast'' @ to_string k')"
    by (simp add: param_dir_def)
  then have "to_string b = to_string b' \<and> ''contrast'' @ to_string k = ''contrast'' @ to_string k'"
    by (rule split_at_first [OF to_string_no_underscore to_string_no_underscore])
  then show "b = b' \<and> k = k'"
    by (auto dest: to_string_inject)
next
  assume "b = b' \<and> k = k'"
  then show "param_dir out b k = param_dir out b' k'"
    by simp
qed


text \<open>The sweep over the blur sizes 3 and 5 and the contrasts 1.0 and 1.5 uses four
  different subfolders.\<close>

lemma param_dir_example:
  "distinct [param_dir out 3 10, param_dir out 3 15, param_dir out 5 10, param_dir out 5 15]"
  by (simp add: param_dir_eq_iff)

subsection \<open>The order of the sweep\<close>

lemma batchProcess_contrasts_run_cells:
  "batchProcess_contrasts cv blur cs state = run_cells cv (map (Pair blur) cs) state"
  by (induction cs arbitrary: state) (simp_all split: sum.splits)

lemma run_cells_append:
  "run_cells cv (xs @ ys) state =
     (case run_cells cv xs state of Inl e \<Rightarrow> Inl e | Inr state' \<Rightarrow> run_cells cv ys state')"
  by (induction cv xs state rule: run_cells.induct) (simp_all split: sum.splits)

lemma batchProcess_run_cells:
  "batchProcess cv bs cs state = run_cells cv (List.product bs cs) state"
  by (induction bs arbitrary: state)
    (simp_all add: batchProcess_contrasts_run_cells run_cells_append split: sum.splits)

subsection \<open>What one cell writes\<close>

lemma imwrite_written: "written (imwrite w path img) = (path, img) # written w"
  by (simp add: imwrite_def Let_def split: option.splits file_type.splits)

lemma processImage_written:
  assumes "processImage cv p w path = Inr w'"
  shows "\<exists>new. written w' = new @ written w \<and>
           (\<forall>q\<in>set (map fst new). q = output_dir p @ ''/'' @ filename path)"
proof (cases "imread w path")
  case None
  with assms have "written w' = [] @ written w"
    by (simp add: processImage_def)
  then show ?thesis
    by (intro exI [of _ "[]"]) simp
next
  case (Some img)
  with assms obtain processed
    where "w' = imwrite w (output_dir p @ ''/'' @ filename path) processed"
    by (auto simp: processImage_def split: sum.splits)
  then have "written w' = [(output_dir p @ ''/'' @ filename path, processed)] @ written w"
    by (simp add: imwrite_written)
  then show ?thesis
    by (intro exI [of _ "[(output_dir p @ ''/'' @ filename path, processed)]"]) auto
qed

lemma processAllImages_loop_written:
  "processAllImages_loop cv p w paths = Inr w' \<Longrightarrow>
   \<exists>new. written w' = new @ written w \<and>
     (\<forall>q\<in>set (map fst new). \<exists>path\<in>set paths. q = output_dir p @ ''/'' @ filename path)"
proof (induction paths arbitrary: w)
  case Nil
  then have "written w' = [] @ written w"
    by simp
  then show ?case
    by (intro exI [of _ "[]"]) simp
next
  case (Cons path paths)
  from Cons.prems obtain w1
    where step: "processImage cv p w path = Inr w1"
      and rest: "processAllImages_loop cv p w1 paths = Inr w'"
    by (auto split: sum.splits)
  from processImage_written [OF step] obtain new1
    where n1: "written w1 = new1 @ written w"
      "\<forall>q\<in>set (map fst new1). q = output_dir p @ ''/'' @ filename path"
    by blast
  from Cons.IH [OF rest] obtain new2
    where n2: "written w' = new2 @ written w1"
      "\<forall>q\<in>set (map fst new2). \<exists>path\<in>set paths. q = output_dir p @ ''/'' @ filename path"
    by blast
  have "written w' = (new2 @ new1) @ written w"
    using n1(1) n2(1) by simp
  moreover have "\<forall>q\<in>set (map fst (new2 @ new1)).
                   \<exists>path'\<in>set (path # paths). q = output_dir p @ ''/'' @ filename path'"
    using n1(2) n2(2) by auto
  ultimately show ?case
    by blast
qed

lemma batchProcess_cell_written:
  assumes "batchProcess_cell cv blur contrast (w, p) = Inr (w', p')"
  shows "\<exists>k new. int_of_double (dmul contrast (Fin 10)) = Inr k \<and>
           written w' = new @ written w \<and>
           (\<forall>q\<in>set (map fst new). \<exists>path\<in>set (image_paths p).
              q = param_dir (output_dir p) blur k @ ''/'' @ filename path)"
proof -
  from assms obtain k fs'
    where k: "int_of_double (dmul contrast (Fin 10)) = Inr k"
      and run: "processAllImages cv
                  ((setProcessingParameters p blur contrast (contrast_beta p)
                      (apply_edge_detection p))
                   \<lparr>output_dir := param_dir (output_dir p) blur k\<rparr>)
                  (w\<lparr>dirs := fs'\<rparr>) = Inr w'"
    by (auto simp: batchProcess_cell_def Let_def split: sum.splits)
  from processAllImages_loop_written [OF run [unfolded processAllImages_def]]
  show ?thesis
    using k by (simp add: setProcessingParameters_def)
qed

text \<open>
  The integer of the directory name is made from the rounded product: the doubles
  nearest to 0.7 and to 1.2 give 7 and 12, and 1.25 gives 12 as well.
\<close>

lemma contrast_integer_examples:
  "int_of_double (dmul (Fin (3152519739159347 / 2 ^ 52)) (Fin 10)) = Inr 7"
  "int_of_double (dmul (Fin (5404319552844595 / 2 ^ 52)) (Fin 10)) = Inr 12"
  "int_of_double (dmul (Fin (5 / 4)) (Fin 10)) = Inr 12"
proof -
  show "int_of_double (dmul (Fin (3152519739159347 / 2 ^ 52)) (Fin 10)) = Inr 7"
    by (simp only: dmul_seven_tenths) simp
  have "round_double (5404319552844595 / 2 ^ 52 * 10) = Fin 12"
    using round_double_eq [of 3 "5404319552844595 / 2 ^ 52 * 10"]
    by (simp add: round_half_even_def)
  then show "int_of_double (dmul (Fin (5404319552844595 / 2 ^ 52)) (Fin 10)) = Inr 12"
    by simp
  have "round_double (5 / 4 * 10) = Fin (25 / 2)"
    using round_double_dyadic [of 25 1] by simp
  then show "int_of_double (dmul (Fin (5 / 4)) (Fin 10)) = Inr 12"
    by simp
qed

subsection \<open>The state after the sweep\<close>

lemma batchProcess_cell_state:
  assumes "batchProcess_cell cv blur contrast (w, p) = Inr (w', p')"
  shows "p' = p\<lparr>blur_size := blur, contrast_alpha := contrast\<rparr>"
  using assms
  by (auto simp: batchProcess_cell_def Let_def setProcessingParameters_def split: sum.splits)

lemma run_cells_state:
  "run_cells cv cells (w, p) = Inr (w', p') \<Longrightarrow>
   p' = (if cells = [] then p
         else p\<lparr>blur_size := fst (last cells), contrast_alpha := snd (last cells)\<rparr>)"
proof (induction cells arbitrary: w p)
  case Nil
  then show ?case by simp
next
  case (Cons cell cells)
  obtain blur contrast where cell: "cell = (blur, contrast)"
    by (cases cell)
  from Cons.prems obtain w1 p1
    where step: "batchProcess_cell cv blur contrast (w, p) = Inr (w1, p1)"
      and rest: "run_cells cv cells (w1, p1) = Inr (w', p')"
    by (auto simp: cell split: sum.splits)
  have p1: "p1 = p\<lparr>blur_size := blur, contrast_alpha := contrast\<rparr>"
    using step by (rule batchProcess_cell_state)
  show ?case
    using Cons.IH [OF rest] p1 by (simp add: cell)
qed

lemma last_product:
  "bs \<noteq> [] \<Longrightarrow> cs \<noteq> [] \<Longrightarrow> last (List.product bs cs) = (last bs, last cs)"
proof (induction bs)
  case Nil
  then show ?case by simp
next
  case (Cons b bs)
  show ?case
  proof (cases "bs = []")
    case True
    with Cons.prems show ?thesis
      by (simp add: last_map)
  next
    case False
    then have "List.product bs cs \<noteq> []"
      using Cons.prems(2) by (cases bs; cases cs) simp_all
    then show ?thesis
      using Cons.IH [OF False Cons.prems(2)] False by simp
  qed
qed

lemmas sweep_defs = batchProcess_cell_def ensure_directory_def create_directories_def
  path_defs param_dir_def to_string_def to_string_nat.simps digit_char_def
  setProcessingParameters_def processAllImages_def processImage_def imread_def imwrite_def
  filename_def Let_def round_double_simps

text \<open>
  Claim C5, as amended. The sweep visits the cartesian product in blur-major,
  contrast-minor order: it is one pass over the list of pairs in that order. Each cell
  writes its files, under the file names of its images, into the subfolder \<open>param_dir\<close>
  of its pair, named from the blur size and the integer
  \<^verbatim>\<open>static_cast<int>(contrast * 10)\<close>. The name is a
  function of the pair, and two pairs get the same subfolder exactly when they agree on
  the blur size and on that integer: contrasts that differ by less than the truncation
  shows share a subfolder.
\<close>

theorem batchProcess_sweep:
  "batchProcess cv bs cs state = run_cells cv (List.product bs cs) state \<and>
   (\<forall>blur contrast w p w' p'.
      batchProcess_cell cv blur contrast (w, p) = Inr (w', p') \<longrightarrow>
      (\<exists>k new. int_of_double (dmul contrast (Fin 10)) = Inr k \<and>
         written w' = new @ written w \<and>
         (\<forall>q\<in>set (map fst new). \<exists>path\<in>set (image_paths p).
            q = param_dir (output_dir p) blur k @ ''/'' @ filename path))) \<and>
   (\<forall>out b k b' k'. param_dir out b k = param_dir out b' k' \<longleftrightarrow> b = b' \<and> k = k')"
  using batchProcess_run_cells batchProcess_cell_written param_dir_eq_iff by blast

text \<open>The sweep over the blur sizes 3 and 5 and the contrasts 1 and 1.5, on one image.\<close>

theorem batchProcess_sweep_witness:
  "batchProcess (\<lambda>b c beta e img. Inr ((b, c) # img)) [3, 5] [Fin 1, Fin (3 / 2)]
     (\<lparr>dirs = \<lparr>cwd = [], entries = [([''in''], Directory), ([''in'', ''a.jpg''], Regular),
                                    ([''out''], Directory)]\<rparr>,
       images = [([''in'', ''a.jpg''], [])], written = []\<rparr>,
      \<lparr>image_paths = [''in/a.jpg''], output_dir = ''out'', verbose = False, blur_size = 5,
       contrast_alpha = Fin (3 / 2), contrast_beta = 10, apply_edge_detection = True\<rparr>) =
   run_cells (\<lambda>b c beta e img. Inr ((b, c) # img))
     [(3, Fin 1), (3, Fin (3 / 2)), (5, Fin 1), (5, Fin (3 / 2))]
     (\<lparr>dirs = \<lparr>cwd = [], entries = [([''in''], Directory), ([''in'', ''a.jpg''], Regular),
                                    ([''out''], Directory)]\<rparr>,
       images = [([''in'', ''a.jpg''], [])], written = []\<rparr>,
      \<lparr>image_paths = [''in/a.jpg''], output_dir = ''out'', verbose = False, blur_size = 5,
       contrast_alpha = Fin (3 / 2), contrast_beta = 10, apply_edge_detection = True\<rparr>) \<and>
   batchProcess_cell (\<lambda>b c beta e img. Inr ((b, c) # img)) 3 (Fin 1)
     (\<lparr>dirs = \<lparr>cwd = [], entries = [([''in''], Directory), ([''in'', ''a.jpg''], Regular),
                                    ([''out''], Directory)]\<rparr>,
       images = [([''in'', ''a.jpg''], [])], written = []\<rparr>,
      \<lparr>image_paths = [''in/a.jpg''], output_dir = ''out'', verbose = False, blur_size = 5,
       contrast_alpha = Fin (3 / 2), contrast_beta = 10, apply_edge_detection = True\<rparr>) =
   Inr (\<lparr>dirs = \<lparr>cwd = [], entries = [([''in''], Directory), ([''in'', ''a.jpg''], Regular),
                                       ([''out''], Directory),
                                       ([''out'', ''blur3_contrast10''], Directory),
                                       ([''out'', ''blur3_contrast10'', ''a.jpg''], Regular)]\<rparr>,
         images = [([''out'', ''blur3_contrast10'', ''a.jpg''], [(3, Fin 1)]),
                   ([''in'', ''a.jpg''], [])],
         written = [(''out/blur3_contrast10/a.jpg'', [(3, Fin 1)])]\<rparr>,
        \<lparr>image_paths = [''in/a.jpg''], output_dir = ''out'', verbose = False, blur_size = 3,
         contrast_alpha = Fin 1, contrast_beta = 10, apply_edge_detection = True\<rparr>) \<and>
   (\<exists>k new. int_of_double (dmul (Fin 1) (Fin 10)) = Inr k \<and>
      [(''out/blur3_contrast10/a.jpg'', [(3 :: int, Fin 1)])] = new @ [] \<and>
      (\<forall>q\<in>set (map fst new). \<exists>path\<in>set [''in/a.jpg''].
         q = param_dir ''out'' 3 k @ ''/'' @ filename path)) \<and>
   param_dir ''out'' 3 10 \<noteq> param_dir ''out'' 3 15 \<and>
   param_dir ''out'' 3 10 \<noteq> param_dir ''out'' 5 10"
proof -
  let ?cv = "\<lambda>(b::int) (c::dbl) (beta::int) (e::bool) (img::(int \<times> dbl) list). (Inr ((b, c) # img) :: error + (int \<times> dbl) list)"
  let ?w = "\<lparr>dirs = \<lparr>cwd = [], entries = [([''in''], Directory), ([''in'', ''a.jpg''], Regular),
                                    ([''out''], Directory)]\<rparr>,
       images = [([''in'', ''a.jpg''], [] :: (int \<times> dbl) list)], written = []\<rparr>"
  let ?p = "\<lparr>image_paths = [''in/a.jpg''], output_dir = ''out'', verbose = False, blur_size = 5,
       contrast_alpha = Fin (3 / 2), contrast_beta = 10, apply_edge_detection = True\<rparr>"
  let ?w' = "\<lparr>dirs = \<lparr>cwd = [], entries = [([''in''], Directory), ([''in'', ''a.jpg''], Regular),
                                       ([''out''], Directory),
                                       ([''out'', ''blur3_contrast10''], Directory),
                                       ([''out'', ''blur3_contrast10'', ''a.jpg''], Regular)]\<rparr>,
         images = [([''out'', ''blur3_contrast10'', ''a.jpg''], [(3::int, Fin 1)]),
                   ([''in'', ''a.jpg''], [])],
         written = [(''out/blur3_contrast10/a.jpg'', [(3::int, Fin 1)])]\<rparr>"
  let ?p' = "\<lparr>image_paths = [''in/a.jpg''], output_dir = ''out'', verbose = False, blur_size = 3,
         contrast_alpha = Fin 1, contrast_beta = 10, apply_edge_detection = True\<rparr>"
  note inst = batchProcess_sweep [of ?cv "[3, 5]" "[Fin 1, Fin (3 / 2)]" "(?w, ?p)"]
  have order: "batchProcess ?cv [3, 5] [Fin 1, Fin (3 / 2)] (?w, ?p) =
      run_cells ?cv [(3, Fin 1), (3, Fin (3 / 2)), (5, Fin 1), (5, Fin (3 / 2))] (?w, ?p)"
    using inst by (simp only: List.product.simps list.map append.simps)
  have cell: "batchProcess_cell ?cv 3 (Fin 1) (?w, ?p) = Inr (?w', ?p')"
    by (simp add: sweep_defs)
  from inst
  have "batchProcess_cell ?cv 3 (Fin 1) (?w, ?p) = Inr (?w', ?p') \<longrightarrow>
      (\<exists>k new. int_of_double (dmul (Fin 1) (Fin 10)) = Inr k \<and>
         written ?w' = new @ written ?w \<and>
         (\<forall>q\<in>set (map fst new). \<exists>path\<in>set (image_paths ?p).
            q = param_dir (output_dir ?p) 3 k @ ''/'' @ filename path))"
    by blast
  with cell have names: "\<exists>k new. int_of_double (dmul (Fin 1) (Fin 10)) = Inr k \<and>
      [(''out/blur3_contrast10/a.jpg'', [(3::int, Fin 1)])] = new @ [] \<and>
      (\<forall>q\<in>set (map fst new). \<exists>path\<in>set [''in/a.jpg''].
         q = param_dir ''out'' 3 k @ ''/'' @ filename path)"
    by simp
  from inst have d1: "param_dir ''out'' 3 10 \<noteq> param_dir ''out'' 3 15"
    and d2: "param_dir ''out'' 3 10 \<noteq> param_dir ''out'' 5 10"
    by simp_all
  show ?thesis
    by (intro conjI order cell names d1 d2)
qed

text \<open>The contrasts 1 and 1.0625 with the blur size 3: both cells write
  \<^verbatim>\<open>out/blur3_contrast10/a.jpg\<close>, and the file holds what the second one wrote.\<close>

theorem batchProcess_collision_counterexample:
  "(3, Fin 1) \<noteq> (3 :: int, Fin (17 / 16)) \<and>
   batchProcess (\<lambda>b c beta e img. Inr ((b, c) # img)) [3] [Fin 1, Fin (17 / 16)]
     (\<lparr>dirs = \<lparr>cwd = [], entries = [([''in''], Directory), ([''in'', ''a.jpg''], Regular),
                                    ([''out''], Directory)]\<rparr>,
       images = [([''in'', ''a.jpg''], [])], written = []\<rparr>,
      \<lparr>image_paths = [''in/a.jpg''], output_dir = ''out'', verbose = False, blur_size = 5,
       contrast_alpha = Fin (3 / 2), contrast_beta = 10, apply_edge_detection = True\<rparr>) =
   Inr (\<lparr>dirs = \<lparr>cwd = [], entries = [([''in''], Directory), ([''in'', ''a.jpg''], Regular),
                                       ([''out''], Directory),
                                       ([''out'', ''blur3_contrast10''], Directory),
                                       ([''out'', ''blur3_contrast10'', ''a.jpg''], Regular)]\<rparr>,
         images = [([''out'', ''blur3_contrast10'', ''a.jpg''], [(3, Fin (17 / 16))]),
                   ([''out'', ''blur3_contrast10'', ''a.jpg''], [(3, Fin 1)]),
                   ([''in'', ''a.jpg''], [])],
         written = [(''out/blur3_contrast10/a.jpg'', [(3, Fin (17 / 16))]),
                    (''out/blur3_contrast10/a.jpg'', [(3, Fin 1)])]\<rparr>,
        \<lparr>image_paths = [''in/a.jpg''], output_dir = ''out'', verbose = False, blur_size = 3,
         contrast_alpha = Fin (17 / 16), contrast_beta = 10, apply_edge_detection = True\<rparr>)"
  by (simp add: sweep_defs round_double_dyadic [of 85 3, simplified])

text \<open>
  Claim C9. After \<^verbatim>\<open>batchProcess\<close> has returned, the output directory is the one from
  before the sweep; when the sweep had a cell, the blur size and the contrast are
  those of the last pair, everything else is as before, and a later
  \<^verbatim>\<open>processAllImages\<close> runs with those parameters.
\<close>

theorem batchProcess_final_state:
  assumes "batchProcess cv bs cs (w, p) = Inr (w', p')"
  shows "output_dir p' = output_dir p \<and>
         (bs \<noteq> [] \<and> cs \<noteq> [] \<longrightarrow>
            blur_size p' = last bs \<and> contrast_alpha p' = last cs \<and>
            p' = p\<lparr>blur_size := last bs, contrast_alpha := last cs\<rparr> \<and>
            processAllImages cv p' =
              processAllImages cv (p\<lparr>blur_size := last bs, contrast_alpha := last cs\<rparr>))"
proof -
  have run: "run_cells cv (List.product bs cs) (w, p) = Inr (w', p')"
    using assms by (simp add: batchProcess_run_cells)
  note st = run_cells_state [OF run]
  show ?thesis
  proof (cases "bs \<noteq> [] \<and> cs \<noteq> []")
    case True
    then have ne: "List.product bs cs \<noteq> []"
      by (cases bs; cases cs) simp_all
    have "last (List.product bs cs) = (last bs, last cs)"
      using True by (simp add: last_product)
    with st ne have "p' = p\<lparr>blur_size := last bs, contrast_alpha := last cs\<rparr>"
      by simp
    then show ?thesis
      by simp
  next
    case False
    have "List.product xs ([] :: dbl list) = []" for xs :: "int list"
      by (induction xs) simp_all
    with False have "List.product bs cs = []"
      by (cases "bs = []") simp_all
    with st have "p' = p"
      by simp
    with False show ?thesis
      by blast
  qed
qed

theorem batchProcess_final_state_witness:
  "\<exists>w' p'.
     batchProcess (\<lambda>b c beta e img. Inr ((b, c) # img)) [3, 5] [Fin 1, Fin (3 / 2)]
       (\<lparr>dirs = \<lparr>cwd = [], entries = [([''in''], Directory), ([''in'', ''a.jpg''], Regular),
                                      ([''out''], Directory)]\<rparr>,
         images = [([''in'', ''a.jpg''], [])], written = []\<rparr>,
        \<lparr>image_paths = [''in/a.jpg''], output_dir = ''out'', verbose = False, blur_size = 7,
         contrast_alpha = Fin 2, contrast_beta = 10, apply_edge_detection = True\<rparr>) =
     Inr (w', p') \<and>
     output_dir p' = ''out'' \<and> blur_size p' = 5 \<and> contrast_alpha p' = Fin (3 / 2)"
proof -
  let ?cv = "\<lambda>(b::int) (c::dbl) (beta::int) (e::bool) (img::(int \<times> dbl) list). (Inr ((b, c) # img) :: error + (int \<times> dbl) list)"
  let ?w = "\<lparr>dirs = \<lparr>cwd = [], entries = [([''in''], Directory), ([''in'', ''a.jpg''], Regular),
                                    ([''out''], Directory)]\<rparr>,
       images = [([''in'', ''a.jpg''], [] :: (int \<times> dbl) list)], written = []\<rparr>"
  let ?p = "\<lparr>image_paths = [''in/a.jpg''], output_dir = ''out'', verbose = False, blur_size = 7,
       contrast_alpha = Fin 2, contrast_beta = 10, apply_edge_detection = True\<rparr>"
  have "\<exists>w' p'. batchProcess ?cv [3, 5] [Fin 1, Fin (3 / 2)] (?w, ?p) = Inr (w', p')"
    by (simp add: sweep_defs)
  then obtain w' p'
    where run: "batchProcess ?cv [3, 5] [Fin 1, Fin (3 / 2)] (?w, ?p) = Inr (w', p')"
    by blast
  from batchProcess_final_state [OF run]
  have "output_dir p' = ''out'' \<and> blur_size p' = 5 \<and> contrast_alpha p' = Fin (3 / 2)"
    by simp
  with run show ?thesis
    by blast
qed

end
